theory Spec2Isabelle
  imports Main "HOL-Library.Word" "HOL-Library.Sublist"
begin

section \<open>The content store of hauler (pkg/store/store.go)\<close>

text \<open>
  The store keeps OCI content below a root directory. Its operations call into
  collaborators that are not part of the file: the staging layout (\<open>newLayout\<close>,
  \<open>add\<close>, \<open>commit\<close>), the blob cache (\<open>cache.Oci\<close>), the oras content store and copy
  primitive, the operating system (\<open>os.RemoveAll\<close>) and the JSON decoder. Each of them
  is a parameter of the operation that uses it; the world outside the persistent
  store (staging directories, cache contents, the network) is a state of type \<open>'x\<close>
  that is threaded through every call that can touch it. The reference parser of
  go-containerregistry (package \<open>name\<close>) is modelled function by function;
  \<open>RelocateReference\<close>, which consists of calls to it, is defined on that model, and
  \<open>AddArtifact\<close> takes the parser as a parameter, so that what it does around the
  parse holds for every parser.

  A Go function returning \<open>(T, error)\<close> is a pair \<open>T \<times> error option\<close> where the value
  it returns beside the error is part of what a caller sees; \<open>None\<close> is the nil error.
  Where the caller only reads the value after checking \<open>err == nil\<close>, the result is a
  sum \<open>error + T\<close>.
\<close>

subsection \<open>Errors\<close>

datatype error =
    ErrInvalidReference            \<comment> \<open>\<open>errors.New("invalid reference")\<close>, store.go line 31\<close>
  | ErrBadName string              \<comment> \<open>the error type of package \<open>name\<close>\<close>
  | Wrap error string              \<comment> \<open>\<open>errors.Wrap(err, msg)\<close> of github.com/pkg/errors\<close>
  | Failure string                 \<comment> \<open>any other error a collaborator reports\<close>

subsection \<open>Descriptors\<close>

record Platform =
  Architecture :: string
  OS :: string
  OSVersion :: string
  OSFeatures :: "string list"
  Variant :: string

record Descriptor =
  MediaType :: string
  Digest :: string
  Size :: "64 word"
  URLs :: "string list"
  Annotations :: "(string \<times> string) list"
  Platform :: "Platform option"

text \<open>The composite literal \<open>ocispec.Descriptor{}\<close>: every field has its zero value.\<close>

definition zero_Descriptor :: Descriptor where
  "zero_Descriptor =
     \<lparr>MediaType = [], Digest = [], Size = 0, URLs = [], Annotations = [], Platform = None\<rparr>"

subsection \<open>References of package name\<close>

text \<open>
  A \<open>name.Reference\<close> is a \<open>name.Tag\<close> or a \<open>name.Digest\<close>; both embed a
  \<open>name.Repository\<close>, which embeds a \<open>name.Registry\<close>. The fields \<open>insecure\<close> and
  \<open>original\<close> are read by no method that store.go calls and are left out.
\<close>

record Repository =
  registry :: string
  repository :: string

datatype Reference =
    NameTag Repository string        \<comment> \<open>\<open>name.Tag\<close>: the repository and the tag\<close>
  | NameDigest Repository string     \<comment> \<open>\<open>name.Digest\<close>: the repository and the digest\<close>

record options =
  strict :: bool
  defaultRegistry :: string
  defaultTag :: string

text \<open>\<open>makeOptions()\<close> of package name with no option applied.\<close>

definition DefaultRegistry :: string where
  "DefaultRegistry = ''index.docker.io''"

definition makeOptions :: options where
  "makeOptions = \<lparr>strict = False, defaultRegistry = DefaultRegistry, defaultTag = ''latest''\<rparr>"

definition WithDefaultRegistry :: "string \<Rightarrow> options \<Rightarrow> options" where
  "WithDefaultRegistry r opt = opt\<lparr>defaultRegistry := r\<rparr>"

definition WithDefaultTag :: "string \<Rightarrow> options \<Rightarrow> options" where
  "WithDefaultTag t opt = opt\<lparr>defaultTag := t\<rparr>"

subsection \<open>Package name of go-containerregistry\<close>

text \<open>
  store.go imports github.com/google/go-containerregistry/pkg/name and calls
  \<open>ParseReference\<close>, \<open>NewDigest\<close> and the methods \<open>Context\<close>, \<open>RepositoryStr\<close>,
  \<open>Name\<close>, \<open>Identifier\<close>, \<open>Tag\<close> and \<open>Digest\<close>. The package is not among the
  sources of the repository; the definitions below follow its files check.go,
  registry.go, repository.go, tag.go, digest.go and ref.go function by function. A
  string is its list of bytes. Error messages that the package formats from its
  arguments are shortened to the name of the element that was rejected.
\<close>

text \<open>\<open>strings.Split(s, sep)\<close> for a separator of one byte: never the empty list.\<close>

fun strings_Split :: "string \<Rightarrow> char \<Rightarrow> string list" where
  "strings_Split [] sep = [] # []"
| "strings_Split (c # cs) sep =
     (if c = sep then [] # strings_Split cs sep
      else (case strings_Split cs sep of
              [] \<Rightarrow> [c # []]
            | w # ws \<Rightarrow> (c # w) # ws))"

text \<open>\<open>strings.SplitN(s, sep, 2)\<close>: cut at the first separator, if there is one.\<close>

definition strings_SplitN2 :: "string \<Rightarrow> char \<Rightarrow> string list" where
  "strings_SplitN2 s sep =
     (if sep \<in> set s then [takeWhile (\<lambda>c. c \<noteq> sep) s, tl (dropWhile (\<lambda>c. c \<noteq> sep) s)]
      else [s])"

fun strings_Join :: "string list \<Rightarrow> char \<Rightarrow> string" where
  "strings_Join [] sep = []"
| "strings_Join [w] sep = w"
| "strings_Join (w # ws) sep = w @ sep # strings_Join ws sep"

definition ContainsRune :: "string \<Rightarrow> char \<Rightarrow> bool" where
  "ContainsRune s c \<longleftrightarrow> c \<in> set s"

text \<open>
  \<open>checkElement\<close>: the length lies between the bounds and every character is
  allowed. The allowed characters are ASCII, so an accepted element has as many
  runes as bytes.
\<close>

definition checkElement :: "string \<Rightarrow> string \<Rightarrow> string \<Rightarrow> nat \<Rightarrow> nat \<Rightarrow> error option" where
  "checkElement name element allowedRunes minRunes maxRunes =
     (if length element < minRunes \<or> maxRunes < length element then Some (ErrBadName name)
      else if filter (\<lambda>c. c \<notin> set allowedRunes) element \<noteq> [] then Some (ErrBadName name)
      else None)"

definition tagChars :: string where
  "tagChars = ''abcdefghijklmnopqrstuvwxyzABCDEFGHIJKLMNOPQRSTUVWXYZ0123456789_-.''"

definition digestChars :: string where
  "digestChars = ''sh:0123456789abcdef''"

definition repositoryChars :: string where
  "repositoryChars = ''abcdefghijklmnopqrstuvwxyz0123456789_-./''"

definition checkTag :: "string \<Rightarrow> error option" where
  "checkTag name = checkElement ''tag'' name tagChars 1 128"

definition checkDigest :: "string \<Rightarrow> error option" where
  "checkDigest name = checkElement ''digest'' name digestChars (7 + 64) (7 + 64)"

definition checkRepository :: "string \<Rightarrow> error option" where
  "checkRepository repo = checkElement ''repository'' repo repositoryChars 2 255"

text \<open>
  \<open>checkRegistry\<close> calls \<open>url.Parse("//" + name)\<close> and accepts the name when there is
  no error and the host of the URL is the name. \<open>url.Parse\<close> is a parameter: \<open>U\<close>
  maps a raw URL to the host of the URL that \<open>url.Parse\<close> returns, and to \<open>None\<close> when
  \<open>url.Parse\<close> returns an error. Every function of the package that reaches
  \<open>checkRegistry\<close> passes \<open>U\<close> on.
\<close>

definition checkRegistry :: "(string \<Rightarrow> string option) \<Rightarrow> string \<Rightarrow> error option" where
  "checkRegistry U name =
     (case U (''//'' @ name) of
        None \<Rightarrow> Some (ErrBadName ''registry'')
      | Some host \<Rightarrow> if host \<noteq> name then Some (ErrBadName ''registry'') else None)"

definition defaultRegistryAlias :: string where
  "defaultRegistryAlias = ''docker.io''"

definition NewRegistry :: "(string \<Rightarrow> string option) \<Rightarrow> string \<Rightarrow> options \<Rightarrow> error + string" where
  "NewRegistry U name opt =
     (if strict opt \<and> name = [] then Inl (ErrBadName ''registry'')
      else case checkRegistry U name of
             Some err \<Rightarrow> Inl err
           | None \<Rightarrow>
               (let name1 = (if name = [] then defaultRegistry opt else name);
                    name2 = (if name1 = defaultRegistryAlias then DefaultRegistry else name1)
                in Inr name2))"

definition hasImplicitNamespace :: "string \<Rightarrow> string \<Rightarrow> bool" where
  "hasImplicitNamespace repo reg \<longleftrightarrow> \<not> ContainsRune repo (CHR ''/'') \<and> reg = DefaultRegistry"

text \<open>
  \<open>RepositoryStr\<close> puts \<open>library/\<close> in front of a repository without a slash on
  Docker Hub (\<open>fmt.Sprintf("%s/%s", defaultNamespace, r.repository)\<close>).
\<close>

definition RepositoryStr :: "Repository \<Rightarrow> string" where
  "RepositoryStr r =
     (if hasImplicitNamespace (repository r) (registry r)
      then ''library/'' @ repository r
      else repository r)"

definition Repository_Name :: "Repository \<Rightarrow> string" where
  "Repository_Name r =
     (if registry r \<noteq> [] then registry r @ ''/'' @ RepositoryStr r else RepositoryStr r)"

definition NewRepository ::
  "(string \<Rightarrow> string option) \<Rightarrow> string \<Rightarrow> options \<Rightarrow> error + Repository" where
  "NewRepository U name opt =
     (if name = [] then Inl (ErrBadName ''a repository name must be specified'')
      else
        (let (reg_name, repo) =
               (case strings_SplitN2 name (CHR ''/'') of
                  [p0, p1] \<Rightarrow>
                    (if ContainsRune p0 (CHR ''.'') \<or> ContainsRune p0 (CHR '':'')
                     then (p0, p1) else ([], name))
                | _ \<Rightarrow> ([], name))
         in case checkRepository repo of
              Some err \<Rightarrow> Inl err
            | None \<Rightarrow>
                (case NewRegistry U reg_name opt of
                   Inl err \<Rightarrow> Inl err
                 | Inr reg \<Rightarrow>
                     (if hasImplicitNamespace repo reg \<and> strict opt
                      then Inl (ErrBadName ''strict validation requires the full repository path'')
                      else Inr \<lparr>registry = reg, repository = repo\<rparr>))))"

definition NewTag ::
  "(string \<Rightarrow> string option) \<Rightarrow> string \<Rightarrow> options \<Rightarrow> error + Reference" where
  "NewTag U name opt =
     (let parts = strings_Split name (CHR '':'');
          (base, tag) =
            (if length parts > 1 \<and> \<not> ContainsRune (last parts) (CHR ''/'')
             then (strings_Join (butlast parts) (CHR '':''), last parts)
             else (name, []))
      in case (if tag \<noteq> [] \<or> strict opt then checkTag tag else None) of
           Some err \<Rightarrow> Inl err
         | None \<Rightarrow>
             (let tag' = (if tag = [] then defaultTag opt else tag)
              in case NewRepository U base opt of
                   Inl err \<Rightarrow> Inl err
                 | Inr repo \<Rightarrow> Inr (NameTag repo tag')))"

fun Context :: "Reference \<Rightarrow> Repository" where
  "Context (NameTag r t) = r"
| "Context (NameDigest r d) = r"

fun Identifier :: "Reference \<Rightarrow> string" where
  "Identifier (NameTag r t) = t"
| "Identifier (NameDigest r d) = d"

fun Name :: "Reference \<Rightarrow> string" where
  "Name (NameTag r t) = Repository_Name r @ '':'' @ t"
| "Name (NameDigest r d) = Repository_Name r @ ''@'' @ d"

definition NewDigest ::
  "(string \<Rightarrow> string option) \<Rightarrow> string \<Rightarrow> options \<Rightarrow> error + Reference" where
  "NewDigest U name opt =
     (case strings_Split name (CHR ''@'') of
        [base, digest] \<Rightarrow>
          (case checkDigest digest of
             Some err \<Rightarrow> Inl err
           | None \<Rightarrow>
               (let base' = (case NewTag U base opt of
                               Inr tag \<Rightarrow> Repository_Name (Context tag)
                             | Inl err \<Rightarrow> base)
                in case NewRepository U base' opt of
                     Inl err \<Rightarrow> Inl err
                   | Inr repo \<Rightarrow> Inr (NameDigest repo digest)))
      | _ \<Rightarrow> Inl (ErrBadName ''a digest must contain exactly one @ separator''))"

definition name_ParseReference ::
  "(string \<Rightarrow> string option) \<Rightarrow> options \<Rightarrow> string \<Rightarrow> error + Reference" where
  "name_ParseReference U opt s =
     (case NewTag U s opt of
        Inr t \<Rightarrow> Inr t
      | Inl _ \<Rightarrow>
          (case NewDigest U s opt of
             Inr d \<Rightarrow> Inr d
           | Inl _ \<Rightarrow> Inl (ErrBadName (''could not parse reference: '' @ s))))"

text \<open>The methods \<open>Repository.Tag\<close> and \<open>Repository.Digest\<close>.\<close>

definition Repository_Tag :: "Repository \<Rightarrow> string \<Rightarrow> Reference" where
  "Repository_Tag r identifier = NameTag r identifier"

definition Repository_Digest :: "Repository \<Rightarrow> string \<Rightarrow> Reference" where
  "Repository_Digest r identifier = NameDigest r identifier"

subsection \<open>RelocateReference\<close>

definition RelocateReference ::
  "(string \<Rightarrow> string option) \<Rightarrow> string \<Rightarrow> string \<Rightarrow> error + Reference" where
  "RelocateReference U reference reg =
     (case name_ParseReference U makeOptions reference of
        Inl err \<Rightarrow> Inl err
      | Inr ref \<Rightarrow>
          (case name_ParseReference U (WithDefaultRegistry reg makeOptions)
                  (RepositoryStr (Context ref)) of
             Inl err \<Rightarrow> Inl err
           | Inr relocated \<Rightarrow>
               (case NewDigest U (Name ref) makeOptions of
                  Inr _ \<Rightarrow> Inr (Repository_Digest (Context relocated) (Identifier ref))
                | Inl _ \<Rightarrow> Inr (Repository_Tag (Context relocated) (Identifier ref)))))"

subsection \<open>The store and its collaborators\<close>

text \<open>
  \<open>Root\<close> is the root directory as the list of its path components; \<open>store\<close> is the
  state of the OCI content store the pointer \<open>s.store\<close> refers to; \<open>cache\<close> is
  \<open>None\<close> for a nil cache.
\<close>

record ('st, 'cache) Store =
  Root :: "string list"
  store :: 'st
  cache :: "'cache option"

text \<open>
  What \<open>AddArtifact\<close> calls. \<open>newLayout()\<close> and \<open>stage.add(ctx, oci, ref)\<close> are not
  given the store, so they act on the outside world only; \<open>stage.commit(ctx, s)\<close> is
  given the store and returns it as it leaves it, also when it fails.
\<close>

record ('oci, 'cache, 'layout, 'st, 'x) staging =
  newLayout :: "'x \<Rightarrow> (error + 'layout) \<times> 'x"
  cache_Oci :: "'oci \<Rightarrow> 'cache \<Rightarrow> 'oci"
  ParseReference :: "options \<Rightarrow> string \<Rightarrow> error + Reference"
  layout_add :: "'layout \<Rightarrow> 'oci \<Rightarrow> Reference \<Rightarrow> 'x \<Rightarrow> error option \<times> 'x"
  layout_commit :: "'layout \<Rightarrow> ('st, 'cache) Store \<Rightarrow> 'x \<Rightarrow>
                      (Descriptor \<times> error option) \<times> ('st, 'cache) Store \<times> 'x"

subsection \<open>AddArtifact and AddCollection\<close>

definition AddArtifact ::
  "('oci, 'cache, 'layout, 'st, 'x) staging \<Rightarrow> ('st, 'cache) Store \<Rightarrow> 'oci \<Rightarrow> string \<Rightarrow> 'x \<Rightarrow>
     (Descriptor \<times> error option) \<times> ('st, 'cache) Store \<times> 'x" where
  "AddArtifact D s oci reference x =
     (case newLayout D x of
        (Inl err, x1) \<Rightarrow> ((zero_Descriptor, Some err), s, x1)
      | (Inr stage, x1) \<Rightarrow>
          (let oci' = (case cache s of None \<Rightarrow> oci | Some c \<Rightarrow> cache_Oci D oci c)
           in case ParseReference D
                     (WithDefaultTag ''latest'' (WithDefaultRegistry [] makeOptions)) reference of
                Inl err \<Rightarrow> ((zero_Descriptor, Some (Wrap err ''adding artifact'')), s, x1)
              | Inr ref \<Rightarrow>
                  (case layout_add D stage oci' ref x1 of
                     (Some err, x2) \<Rightarrow> ((zero_Descriptor, Some err), s, x2)
                   | (None, x2) \<Rightarrow> layout_commit D stage s x2)))"

text \<open>
  The loop \<open>for ref, oci := range cnts\<close> of \<open>AddCollection\<close>. \<open>cnts\<close> is a Go map; the
  list holds its entries in the order this \<open>range\<close> statement yields them, which Go
  leaves unspecified. \<open>descs\<close> is the slice built so far; the nil slice is \<open>[]\<close>.
\<close>

fun AddCollection_loop ::
  "('oci, 'cache, 'layout, 'st, 'x) staging \<Rightarrow> ('st, 'cache) Store \<Rightarrow> (string \<times> 'oci) list \<Rightarrow>
     Descriptor list \<Rightarrow> 'x \<Rightarrow> (Descriptor list \<times> error option) \<times> ('st, 'cache) Store \<times> 'x" where
  "AddCollection_loop D s [] descs x = ((descs, None), s, x)"
| "AddCollection_loop D s ((ref, oci) # rest) descs x =
     (case AddArtifact D s oci ref x of
        ((ds, Some err), s', x') \<Rightarrow> (([], Some err), s', x')
      | ((ds, None), s', x') \<Rightarrow> AddCollection_loop D s' rest (descs @ [ds]) x')"

text \<open>
  A collection is its one method \<open>Contents()\<close>, which may read the outside world.
\<close>

definition AddCollection ::
  "('oci, 'cache, 'layout, 'st, 'x) staging \<Rightarrow> ('st, 'cache) Store \<Rightarrow>
     ('x \<Rightarrow> (error + (string \<times> 'oci) list) \<times> 'x) \<Rightarrow> 'x \<Rightarrow>
     (Descriptor list \<times> error option) \<times> ('st, 'cache) Store \<times> 'x" where
  "AddCollection D s Contents x =
     (case Contents x of
        (Inl err, x0) \<Rightarrow> (([], Some err), s, x0)
      | (Inr cnts, x0) \<Rightarrow> AddCollection_loop D s cnts [] x0)"

subsection \<open>Flush\<close>

text \<open>
  The part of the file system \<open>Flush\<close> acts on: a path is the list of its components,
  and the file system maps every path that exists to what is stored there.
  \<open>filepath.Join(s.Root, name)\<close> is the entry \<open>name\<close> of the root directory.
  \<open>os.RemoveAll\<close> is a parameter: it returns its error and the file system it leaves.
\<close>

type_synonym path = "string list"




text \<open>
  What the documentation of \<open>os.RemoveAll\<close> promises: it removes the path and any
  children it contains, everything it can, and returns the first error it meets; if
  the path does not exist it returns nil. So nothing outside the tree below the path
  changes, inside it entries can only disappear, after a nil error the tree is gone,
  and a tree that is not there gives a nil error.
\<close>

definition below :: "path \<Rightarrow> path \<Rightarrow> bool" where
  "below p q \<longleftrightarrow> prefix p q"




subsection \<open>Walk, Copy, CopyAll and Identify\<close>

text \<open>
  What these operations call: \<open>ListReferences\<close> and \<open>Fetch\<close> of the oras OCI store,
  \<open>oras.Copy\<close>, the JSON decoder, and the constant \<open>consts.DockerManifestSchema2\<close>.
  \<open>ListReferences\<close> returns a Go map; the list holds its entries in the order a
  \<open>range\<close> statement yields them. \<open>oras.Copy\<close> reads the store and writes the target,
  whose state is \<open>'t\<close>. \<open>json_Decode\<close> is given the bytes fetched and returns the
  field \<open>m.Config.MediaType\<close> as the decoder leaves it, and the decoder's error.
\<close>

record ('st, 't) content =
  ListReferences :: "'st \<Rightarrow> (string \<times> Descriptor) list"
  Fetch :: "'st \<Rightarrow> Descriptor \<Rightarrow> error + string"
  oras_Copy :: "'st \<Rightarrow> string \<Rightarrow> 't \<Rightarrow> string \<Rightarrow> string list \<Rightarrow> (Descriptor \<times> error option) \<times> 't"
  json_Decode :: "string \<Rightarrow> string \<times> error option"
  DockerManifestSchema2 :: string

fun Walk_loop ::
  "(Descriptor \<Rightarrow> 'v \<Rightarrow> error option \<times> 'v) \<Rightarrow> (string \<times> Descriptor) list \<Rightarrow> 'v \<Rightarrow>
     error option \<times> 'v" where
  "Walk_loop fn [] v = (None, v)"
| "Walk_loop fn ((ref, desc) # rest) v =
     (case fn desc v of
        (Some err, v') \<Rightarrow> (Some err, v')
      | (None, v') \<Rightarrow> Walk_loop fn rest v')"

text \<open>The visit function may have effects; \<open>'v\<close> is the state it acts on.\<close>

definition Walk ::
  "('st, 't) content \<Rightarrow> ('st, 'cache) Store \<Rightarrow> (Descriptor \<Rightarrow> 'v \<Rightarrow> error option \<times> 'v) \<Rightarrow> 'v \<Rightarrow>
     error option \<times> 'v" where
  "Walk C s fn v = (let refs = ListReferences C (store s) in Walk_loop fn refs v)"

definition Copy ::
  "('st, 't) content \<Rightarrow> ('st, 'cache) Store \<Rightarrow> string \<Rightarrow> 't \<Rightarrow> string \<Rightarrow>
     (Descriptor \<times> error option) \<times> 't" where
  "Copy C s ref to toRef = oras_Copy C (store s) ref to toRef [DockerManifestSchema2 C]"

text \<open>The loop of \<open>CopyAll\<close> over the keys of the map; \<open>None\<close> is the nil mapper.\<close>

fun CopyAll_loop ::
  "('st, 't) content \<Rightarrow> ('st, 'cache) Store \<Rightarrow> string list \<Rightarrow> 't \<Rightarrow>
     (string \<Rightarrow> string \<times> error option) option \<Rightarrow> error option \<times> 't" where
  "CopyAll_loop C s [] to toMapper = (None, to)"
| "CopyAll_loop C s (ref # rest) to toMapper =
     (case (case toMapper of
              None \<Rightarrow> Inr []
            | Some m \<Rightarrow> (case m ref of (tr, Some err) \<Rightarrow> Inl err | (tr, None) \<Rightarrow> Inr tr)) of
        Inl err \<Rightarrow> (Some err, to)
      | Inr toRef \<Rightarrow>
          (case Copy C s ref to toRef of
             ((d, Some err), to') \<Rightarrow> (Some err, to')
           | ((d, None), to') \<Rightarrow> CopyAll_loop C s rest to' toMapper))"

definition CopyAll ::
  "('st, 't) content \<Rightarrow> ('st, 'cache) Store \<Rightarrow> 't \<Rightarrow>
     (string \<Rightarrow> string \<times> error option) option \<Rightarrow> error option \<times> 't" where
  "CopyAll C s to toMapper = CopyAll_loop C s (map fst (ListReferences C (store s))) to toMapper"

text \<open>
  \<open>Identify\<close> returns a string and no error. The deferred \<open>rc.Close()\<close> returns
  nothing that \<open>Identify\<close> reads.
\<close>

definition Identify :: "('st, 't) content \<Rightarrow> ('st, 'cache) Store \<Rightarrow> Descriptor \<Rightarrow> string" where
  "Identify C s desc =
     (case Fetch C (store s) desc of
        Inl err \<Rightarrow> []
      | Inr rc \<Rightarrow>
          (case json_Decode C rc of
             (m, Some err) \<Rightarrow> []
           | (m, None) \<Rightarrow> m))"

text \<open>
  The visit function is called on the descriptors \<open>ds\<close> one after the other, every
  call succeeds, and the state it acts on goes from \<open>v\<close> to \<open>v'\<close>.
\<close>

inductive visited ::
  "(Descriptor \<Rightarrow> 'v \<Rightarrow> error option \<times> 'v) \<Rightarrow> 'v \<Rightarrow> Descriptor list \<Rightarrow> 'v \<Rightarrow> bool" where
  visited_Nil: "visited fn v [] v"
| visited_Cons: "fn d v = (None, v1) \<Longrightarrow> visited fn v1 ds v' \<Longrightarrow> visited fn v (d # ds) v'"

text \<open>
  The destination name \<open>CopyAll\<close> passes to \<open>Copy\<close> for a reference the mapper
  accepts: the empty name, which keeps the source name, when there is no mapper.
\<close>

definition destination :: "(string \<Rightarrow> string \<times> error option) option \<Rightarrow> string \<Rightarrow> string" where
  "destination toMapper ref = (case toMapper of None \<Rightarrow> [] | Some m \<Rightarrow> fst (m ref))"

definition mapper_error :: "(string \<Rightarrow> string \<times> error option) option \<Rightarrow> string \<Rightarrow> error option" where
  "mapper_error toMapper ref = (case toMapper of None \<Rightarrow> None | Some m \<Rightarrow> snd (m ref))"

text \<open>
  The references of \<open>refs\<close> are copied one after the other: the mapper accepts each,
  each \<open>Copy\<close> succeeds, and the target goes from \<open>to\<close> to \<open>to'\<close>.
\<close>

inductive copied ::
  "('st, 't) content \<Rightarrow> ('st, 'cache) Store \<Rightarrow> (string \<Rightarrow> string \<times> error option) option \<Rightarrow>
     't \<Rightarrow> string list \<Rightarrow> 't \<Rightarrow> bool" where
  copied_Nil: "copied C s toMapper to [] to"
| copied_Cons: "mapper_error toMapper ref = None \<Longrightarrow>
     Copy C s ref to (destination toMapper ref) = ((d, None), to1) \<Longrightarrow>
     copied C s toMapper to1 rest to' \<Longrightarrow>
     copied C s toMapper to (ref # rest) to'"

text \<open>
  The items of \<open>items\<close> are added one after the other, each \<open>AddArtifact\<close> succeeds,
  and the store and the world go from \<open>(s, x)\<close> to \<open>(s', x')\<close>; \<open>ds\<close> are the
  descriptors returned, in order.
\<close>

inductive added ::
  "('oci, 'cache, 'layout, 'st, 'x) staging \<Rightarrow> ('st, 'cache) Store \<Rightarrow> 'x \<Rightarrow> (string \<times> 'oci) list \<Rightarrow>
     Descriptor list \<Rightarrow> ('st, 'cache) Store \<Rightarrow> 'x \<Rightarrow> bool" where
  added_Nil: "added D s x [] [] s x"
| added_Cons: "AddArtifact D s oci ref x = ((d, None), s1, x1) \<Longrightarrow> added D s1 x1 rest ds s' x' \<Longrightarrow>
     added D s x ((ref, oci) # rest) (d # ds) s' x'"

text \<open>A failing \<open>commit\<close> leaves the store as it found it.\<close>

definition commit_keeps_store_on_error :: "('oci, 'cache, 'layout, 'st, 'x) staging \<Rightarrow> bool" where
  "commit_keeps_store_on_error D \<longleftrightarrow>
     (\<forall>stage s x. snd (fst (layout_commit D stage s x)) \<noteq> None \<longrightarrow>
        fst (snd (layout_commit D stage s x)) = s)"


subsection \<open>The blob cache and the staging layout, from the specification\<close>

text \<open>
  Modelled from the spec: the cache capability \<open>cache.Cache\<close> of internal/cache, which
  is not among the source files. Section 6 gives it \<open>get(key) -> (bytes, found)\<close> and
  \<open>put(key, bytes) -> error\<close>; section 4.1 speaks of errors of the cache's own backing
  store. The cache is its entries and whether its backing store fails: a failing
  cache finds nothing and stores nothing.
\<close>

record blob_cache =
  entries :: "(string \<times> string) list"
  failing :: bool

definition cache_get :: "blob_cache \<Rightarrow> string \<Rightarrow> string \<times> bool" where
  "cache_get c key =
     (if failing c then ([], False)
      else case map_of (entries c) key of
             None \<Rightarrow> ([], False)
           | Some bytes \<Rightarrow> (bytes, True))"

text \<open>Modelled from the spec: \<open>put\<close> of the cache capability, section 6.\<close>

definition cache_put :: "blob_cache \<Rightarrow> string \<Rightarrow> string \<Rightarrow> error option \<times> blob_cache" where
  "cache_put c key bytes =
     (if failing c then (Some (Failure ''cache store''), c)
      else (None, c\<lparr>entries := (key, bytes) # entries c\<rparr>))"

text \<open>
  Modelled from the spec: the artifact capability \<open>artifact.OCI\<close> of pkg/artifact,
  section 6: a manifest descriptor, the blobs the manifest refers to (each by its
  key, the digest), the operation of the adapter that produces a blob, and the raw
  config.
\<close>

record artifact =
  Manifest :: Descriptor
  Layers :: "string list"
  Produce :: "string \<Rightarrow> error + string"
  RawConfig :: string

text \<open>
  Modelled from the spec: \<open>cache.Oci\<close> of internal/cache, section 4.1. What
  \<open>AddArtifact\<close> is given is an artifact of an adapter or an artifact decorated by
  \<open>cache.Oci\<close>. The decoration keeps manifest, blob list and config.
\<close>

datatype oci = Plain artifact | Cached oci

text \<open>
  Modelled from the spec: the artifact of the adapter under the decorations, whose
  manifest, blob list and config the decorated artifact reports.
\<close>

fun underlying :: "oci \<Rightarrow> artifact" where
  "underlying (Plain a) = a"
| "underlying (Cached oci) = underlying oci"

text \<open>
  Modelled from the spec: \<open>wrap(artifact) -> artifact\<close>, section 4.1, which store.go
  calls as \<open>cache.Oci(oci, s.cache)\<close>. The cache itself is part of the world.
\<close>

definition cache_Oci_spec :: "oci \<Rightarrow> unit \<Rightarrow> oci" where
  "cache_Oci_spec oci c = Cached oci"

text \<open>
  Modelled from the spec: the blob operation, section 4.1. An adapter's artifact
  invokes its producer. The decorated artifact first checks the cache; on a hit it
  returns the cached bytes without invoking the producer; on a miss it invokes the
  producer, stores the result and returns it; an error of the cache does not fail
  the operation. The operation passes the cache along, since it may fill it.
\<close>

fun Blob :: "oci \<Rightarrow> string \<Rightarrow> blob_cache \<Rightarrow> (error + string) \<times> blob_cache" where
  "Blob (Plain a) key cs = (Produce a key, cs)"
| "Blob (Cached oci) key cs =
     (case cache_get cs key of
        (bytes, True) \<Rightarrow> (Inr bytes, cs)
      | (_, False) \<Rightarrow>
          (case Blob oci key cs of
             (Inl err, cs') \<Rightarrow> (Inl err, cs')
           | (Inr bytes, cs') \<Rightarrow> (Inr bytes, snd (cache_put cs' key bytes))))"

text \<open>
  Modelled from the spec: the world of the staging layout (pkg/store, file not among
  the sources), section 4.2: the cache and the one staging directory, which holds
  the reference, the manifest and the blobs written.
\<close>

record staging_world =
  the_cache :: blob_cache
  staging_dir :: "(string \<times> Descriptor \<times> (string \<times> string) list) option"

text \<open>
  Modelled from the spec: the blob loop of \<open>layout.add\<close>, section 4.2: every blob the
  artifact reports is produced, its digest is computed (by \<open>h\<close>) and compared with its
  key, and it is written; the first blob that cannot be produced or does not match
  ends the loop with an error.
\<close>

fun stage_blobs ::
  "(string \<Rightarrow> string) \<Rightarrow> oci \<Rightarrow> string list \<Rightarrow> blob_cache \<Rightarrow> (string \<times> string) list \<Rightarrow>
     (error + (string \<times> string) list) \<times> blob_cache" where
  "stage_blobs h oci [] cs acc = (Inr acc, cs)"
| "stage_blobs h oci (key # keys) cs acc =
     (case Blob oci key cs of
        (Inl err, cs') \<Rightarrow> (Inl err, cs')
      | (Inr bytes, cs') \<Rightarrow>
          if h bytes \<noteq> key then (Inl (Failure ''digest mismatch''), cs')
          else stage_blobs h oci keys cs' (acc @ [(key, bytes)]))"

text \<open>
  Modelled from the spec: \<open>newLayout\<close>, \<open>layout.add\<close> and \<open>layout.commit\<close>, section
  4.2. \<open>add\<close> writes the manifest and the blobs into the staging directory; \<open>commit\<close>
  copies what is staged into the store as one entry tagged by the staged reference
  (an older entry of that name is replaced) and returns the manifest's descriptor.
\<close>

definition spec_staging ::
  "(string \<Rightarrow> string option) \<Rightarrow> (string \<Rightarrow> string) \<Rightarrow>
     (oci, unit, unit, (string \<times> Descriptor \<times> (string \<times> string) list) list, staging_world) staging" where
  "spec_staging U h =
     \<lparr>newLayout = (\<lambda>x. (Inr (), x\<lparr>staging_dir := None\<rparr>)),
      cache_Oci = cache_Oci_spec,
      ParseReference = name_ParseReference U,
      layout_add = (\<lambda>stage oci ref x.
        case stage_blobs h oci (Layers (underlying oci)) (the_cache x) [] of
          (Inl err, cs) \<Rightarrow> (Some err, x\<lparr>the_cache := cs\<rparr>)
        | (Inr blobs, cs) \<Rightarrow>
            (None, \<lparr>the_cache = cs,
                    staging_dir = Some (Name ref, Manifest (underlying oci), blobs)\<rparr>)),
      layout_commit = (\<lambda>stage s x.
        case staging_dir x of
          None \<Rightarrow> ((zero_Descriptor, Some (Failure ''nothing staged'')), s, x)
        | Some (name, manifest, blobs) \<Rightarrow>
            ((manifest, None),
             s\<lparr>store := filter (\<lambda>e. fst e \<noteq> name) (store s) @ [(name, manifest, blobs)]\<rparr>,
             x\<lparr>staging_dir := None\<rparr>))\<rparr>"

text \<open>
  The cache agrees with an artifact: every hit under the key of one of the
  artifact's blobs returns the bytes the artifact's producer yields for that key. A
  cache that misses on these keys and a cache whose backing store fails agree with
  every artifact.
\<close>

definition coherent :: "artifact \<Rightarrow> blob_cache \<Rightarrow> bool" where
  "coherent a c \<longleftrightarrow>
     (\<forall>key \<in> set (Layers a). \<forall>bytes.
        cache_get c key = (bytes, True) \<longrightarrow> Produce a key = Inr bytes)"

definition misses :: "artifact \<Rightarrow> blob_cache \<Rightarrow> bool" where
  "misses a c \<longleftrightarrow> (\<forall>key \<in> set (Layers a). \<not> snd (cache_get c key))"

subsection \<open>Notions for stating the properties of references\<close>

text \<open>
  The string starts with a segment that \<open>NewRepository\<close> takes for a registry: there
  is a slash, and what stands before the first slash contains a dot or a colon.
\<close>

definition names_registry :: "string \<Rightarrow> bool" where
  "names_registry s \<longleftrightarrow>
     CHR ''/'' \<in> set s \<and>
     (CHR ''.'' \<in> set (takeWhile (\<lambda>c. c \<noteq> CHR ''/'') s) \<or>
      CHR '':'' \<in> set (takeWhile (\<lambda>c. c \<noteq> CHR ''/'') s))"

text \<open>The registry \<open>NewRegistry\<close> stores for a name: \<open>docker.io\<close> becomes \<open>index.docker.io\<close>.\<close>

definition normalised :: "string \<Rightarrow> string" where
  "normalised reg = (if reg = defaultRegistryAlias then DefaultRegistry else reg)"

text \<open>The base and the tag \<open>NewTag\<close> cuts a name into.\<close>

definition tag_split :: "string \<Rightarrow> string \<times> string" where
  "tag_split name =
     (let parts = strings_Split name (CHR '':'')
      in if length parts > 1 \<and> \<not> ContainsRune (last parts) (CHR ''/'')
         then (strings_Join (butlast parts) (CHR '':''), last parts)
         else (name, []))"

text \<open>
  What is used of \<open>url.Parse\<close> on a raw URL that consists of two slashes and an
  authority (RFC 3986): the empty authority has the empty host; a plain host name of
  letters, digits, dots and hyphens is its own host; and when the host is the whole
  authority, the authority contains no slash, which would end it, and no at sign,
  which would end the user information in front of the host.
\<close>

definition plainHostChars :: string where
  "plainHostChars = ''abcdefghijklmnopqrstuvwxyzABCDEFGHIJKLMNOPQRSTUVWXYZ0123456789.-''"

definition url_Parse_documented :: "(string \<Rightarrow> string option) \<Rightarrow> bool" where
  "url_Parse_documented U \<longleftrightarrow>
     U ''//'' = Some [] \<and>
     (\<forall>name. name \<noteq> [] \<and> set name \<subseteq> set plainHostChars \<longrightarrow> U (''//'' @ name) = Some name) \<and>
     (\<forall>name. U (''//'' @ name) = Some name \<longrightarrow> CHR ''/'' \<notin> set name \<and> CHR ''@'' \<notin> set name)"

text \<open>
  A registry as a parsed reference carries it: a valid name with a dot or a colon, so
  that it is recognised when the name of the reference is parsed again, and not the
  alias \<open>docker.io\<close>.
\<close>

definition good_registry :: "(string \<Rightarrow> string option) \<Rightarrow> string \<Rightarrow> bool" where
  "good_registry U g \<longleftrightarrow>
     checkRegistry U g = None \<and> (CHR ''.'' \<in> set g \<or> CHR '':'' \<in> set g) \<and>
     g \<noteq> defaultRegistryAlias"

text \<open>The identifier kind of a reference.\<close>

fun digest_form :: "Reference \<Rightarrow> bool" where
  "digest_form (NameTag r t) = False"
| "digest_form (NameDigest r d) = True"

text \<open>A reference whose parts pass the checks of the package.\<close>

definition well_formed :: "(string \<Rightarrow> string option) \<Rightarrow> Reference \<Rightarrow> bool" where
  "well_formed U ref \<longleftrightarrow>
     good_registry U (registry (Context ref)) \<and>
     checkRepository (repository (Context ref)) = None \<and>
     (if digest_form ref then checkDigest (Identifier ref) = None
      else checkTag (Identifier ref) = None)"

subsection \<open>An instance of the collaborators\<close>

text \<open>
  A \<open>url.Parse\<close> to run the package on: it knows the raw URLs of two slashes and an
  authority that is empty or a host of letters, digits, \<open>-\<close>, \<open>.\<close>, \<open>_\<close> and \<open>~\<close>
  with an optional colon and decimal port, whose host is the authority; for every
  other raw URL it reports an error.
\<close>

definition hostChars :: string where
  "hostChars = ''abcdefghijklmnopqrstuvwxyzABCDEFGHIJKLMNOPQRSTUVWXYZ0123456789-._~''"

definition portChars :: string where
  "portChars = ''0123456789''"

definition plain_authority :: "string \<Rightarrow> bool" where
  "plain_authority name \<longleftrightarrow>
     name = [] \<or>
     (takeWhile (\<lambda>c. c \<noteq> CHR '':'') name \<noteq> [] \<and>
      set (takeWhile (\<lambda>c. c \<noteq> CHR '':'') name) \<subseteq> set hostChars \<and>
      set (tl (dropWhile (\<lambda>c. c \<noteq> CHR '':'') name)) \<subseteq> set portChars)"

definition example_url :: "string \<Rightarrow> string option" where
  "example_url rawurl =
     (if take 2 rawurl = ''//'' \<and> plain_authority (drop 2 rawurl) then Some (drop 2 rawurl)
      else None)"

text \<open>
  A small staging layout to run the operations on: an artifact is its content, the
  empty content cannot be produced; the staging area holds the (name, content) pairs
  added; \<open>commit\<close> appends them to the store, which has room for two entries.
  References are parsed by package name.
\<close>

definition example_descriptor :: "(string \<times> string) list \<Rightarrow> Descriptor" where
  "example_descriptor staged =
     zero_Descriptor\<lparr>MediaType := ''application/vnd.oci.image.manifest.v1+json'',
                     Annotations := map (\<lambda>(n, c). (''org.opencontainers.image.ref.name'', n)) staged\<rparr>"

definition example_staging ::
  "(string, unit, unit, (string \<times> string) list, (string \<times> string) list) staging" where
  "example_staging =
     \<lparr>newLayout = (\<lambda>x. (Inr (), [])),
      cache_Oci = (\<lambda>oci c. oci),
      ParseReference = name_ParseReference example_url,
      layout_add = (\<lambda>stage oci ref x.
        if oci = [] then (Some (Failure ''artifact production''), x)
        else (None, (Name ref, oci) # x)),
      layout_commit = (\<lambda>stage s x.
        if length (store s) + length x > 2
        then ((zero_Descriptor, Some (Failure ''no space left on device'')), s, [])
        else ((example_descriptor x, None), s\<lparr>store := store s @ x\<rparr>, []))\<rparr>"

text \<open>
  The same staging layout with no room for a temporary directory, and with a
  \<open>commit\<close> that returns the descriptor it was about to commit beside its error.
\<close>

definition example_staging_no_tmp ::
  "(string, unit, unit, (string \<times> string) list, (string \<times> string) list) staging" where
  "example_staging_no_tmp =
     example_staging\<lparr>newLayout := (\<lambda>x. (Inl (Failure ''mkdir temp''), x))\<rparr>"


definition example_store :: "((string \<times> string) list, unit) Store" where
  "example_store = \<lparr>Root = [''var'', ''lib'', ''hauler''], store = [], cache = None\<rparr>"

definition example_collection ::
  "(string \<times> string) list \<Rightarrow> (error + (string \<times> string) list) \<times> (string \<times> string) list" where
  "example_collection x =
     (Inr [(''app:1'', ''hello''), (''db:2'', []), (''web:3'', ''world'')], x)"

text \<open>
  A content store and a target to run the other operations on: the store lists one
  reference per entry, \<open>Fetch\<close> finds the entry a descriptor is annotated with, the
  target has room for two entries, and the decoder takes content that starts with
  an opening brace and reads the rest as the media type.
\<close>

definition example_content :: "((string \<times> string) list, (string \<times> string) list) content" where
  "example_content =
     \<lparr>ListReferences = (\<lambda>st. map (\<lambda>(n, c). (n, example_descriptor [(n, c)])) st),
      Fetch = (\<lambda>st desc.
        case Annotations desc of
          [] \<Rightarrow> Inl (Failure ''not found'')
        | (k, n) # _ \<Rightarrow>
            (case map_of st n of
               None \<Rightarrow> Inl (Failure ''not found'')
             | Some c \<Rightarrow> Inr c)),
      oras_Copy = (\<lambda>st ref to toRef types.
        case map_of st ref of
          None \<Rightarrow> ((zero_Descriptor, Some (Failure ''not found'')), to)
        | Some c \<Rightarrow>
            if length to \<ge> 2
            then ((zero_Descriptor, Some (Failure ''no space left on device'')), to)
            else ((example_descriptor [(ref, c)], None),
                  to @ [(if toRef = [] then ref else toRef, c)])),
      json_Decode = (\<lambda>bytes.
        case bytes of
          [] \<Rightarrow> ([], Some (Failure ''unexpected end of JSON input''))
        | b # rest \<Rightarrow>
            if b = CHR ''{'' then (rest, None)
            else ([], Some (Failure ''invalid character''))),
      DockerManifestSchema2 = ''application/vnd.docker.distribution.manifest.v2+json''\<rparr>"

definition example_full_store :: "((string \<times> string) list, unit) Store" where
  "example_full_store =
     example_store\<lparr>store := [(''app:1'', ''{text/plain''), (''db:2'', ''hello''), (''web:3'', ''{text/html'')]\<rparr>"

text \<open>A visit function that keeps a log and refuses the descriptor of \<open>db:2\<close>.\<close>

definition example_visit :: "Descriptor \<Rightarrow> Descriptor list \<Rightarrow> error option \<times> Descriptor list" where
  "example_visit d log =
     (if (''org.opencontainers.image.ref.name'', ''db:2'') \<in> set (Annotations d)
      then (Some (Failure ''visit refused''), log @ [d])
      else (None, log @ [d]))"

text \<open>A mapper that refuses the reference \<open>db:2\<close> and moves the others to a mirror.\<close>

definition example_mapper :: "string \<Rightarrow> string \<times> error option" where
  "example_mapper ref =
     (if ref = ''db:2'' then ([], Some (Failure ''no mapping'')) else (''mirror/'' @ ref, None))"


text \<open>
  An artifact with one blob, a digest function, a warm cache, a cold cache, a cache
  with a stale entry and a cache whose backing store fails, for the staging layout of
  the specification; and the same artifact when its source has gone offline.
\<close>

definition example_digest :: "string \<Rightarrow> string" where
  "example_digest bytes = ''d-'' @ bytes"

definition example_produce :: "string \<Rightarrow> error + string" where
  "example_produce key =
     (if key = ''d-hello'' then Inr ''hello'' else Inl (Failure ''unknown blob''))"

definition example_artifact :: artifact where
  "example_artifact =
     \<lparr>Manifest = example_descriptor [(''app:1'', ''hello'')],
      Layers = [''d-hello''],
      Produce = example_produce,
      RawConfig = ''{}''\<rparr>"

definition example_offline :: artifact where
  "example_offline = example_artifact\<lparr>Produce := (\<lambda>key. Inl (Failure ''source offline''))\<rparr>"

definition example_spec_store ::
  "((string \<times> Descriptor \<times> (string \<times> string) list) list, unit) Store" where
  "example_spec_store = \<lparr>Root = [''var'', ''lib'', ''hauler''], store = [], cache = None\<rparr>"

definition example_warm :: staging_world where
  "example_warm =
     \<lparr>the_cache = \<lparr>entries = [(''d-hello'', ''hello'')], failing = False\<rparr>, staging_dir = None\<rparr>"

definition example_cold :: staging_world where
  "example_cold =
     \<lparr>the_cache = \<lparr>entries = [(''d-world'', ''world'')], failing = False\<rparr>, staging_dir = None\<rparr>"

definition example_stale :: staging_world where
  "example_stale =
     \<lparr>the_cache = \<lparr>entries = [(''d-hello'', ''stale'')], failing = False\<rparr>, staging_dir = None\<rparr>"

definition example_broken :: staging_world where
  "example_broken =
     \<lparr>the_cache = \<lparr>entries = [(''d-hello'', ''stale'')], failing = True\<rparr>, staging_dir = None\<rparr>"

section \<open>Properties of the store operations\<close>

subsection \<open>AddArtifact\<close>

lemma commit_keeps_storeD:
  assumes "commit_keeps_store_on_error D"
    and "layout_commit D stage s x = ((d, Some err), s', x')"
  shows "s' = s"
proof -
  have "snd (fst (layout_commit D stage s x)) \<noteq> None"
    using assms(2) by simp
  with assms(1) have "fst (snd (layout_commit D stage s x)) = s"
    unfolding commit_keeps_store_on_error_def by blast
  with assms(2) show ?thesis by simp
qed


lemma AddArtifact_error_store:
  assumes "AddArtifact D s oci reference x = ((d, Some err), s', x')"
    and "commit_keeps_store_on_error D"
  shows "s' = s"
  using assms(1) commit_keeps_storeD [OF assms(2)]
  unfolding AddArtifact_def Let_def
  by (auto split: prod.splits sum.splits option.splits)


subsection \<open>AddCollection\<close>

lemma AddCollection_loop_added:
  assumes "added D s x items ds s' x'"
  shows "AddCollection_loop D s (items @ post) acc x = AddCollection_loop D s' post (acc @ ds) x'"
  using assms
  by (induction arbitrary: acc rule: added.induct) auto


lemma example_commit_keeps: "commit_keeps_store_on_error example_staging"
  by (simp add: commit_keeps_store_on_error_def example_staging_def)


lemma example_add_app:
  "AddArtifact example_staging example_store ''hello'' ''app:1'' [] =
     ((example_descriptor [(''app:1'', ''hello'')], None),
      example_store\<lparr>store := [(''app:1'', ''hello'')]\<rparr>, [])"
  by code_simp

lemma example_add_db:
  "AddArtifact example_staging (example_store\<lparr>store := [(''app:1'', ''hello'')]\<rparr>) [] ''db:2'' [] =
     ((zero_Descriptor, Some (Failure ''artifact production'')),
      example_store\<lparr>store := [(''app:1'', ''hello'')]\<rparr>, [])"
  by code_simp

text \<open>
  C1. Let the contents of a collection be the pairs \<open>cnts\<close>, in the order the loop
  meets them. \<open>AddCollection\<close> calls \<open>AddArtifact\<close> on each pair in turn: if all
  succeed it returns their descriptors in that order. If the items \<open>pre\<close> are added
  successfully and \<open>AddArtifact\<close> fails on the next one, \<open>AddCollection\<close> returns that
  error at once: the store and the world are the ones the failing call left, reached
  from the state in which exactly the items of \<open>pre\<close> are committed; nothing is rolled
  back and no later item is looked at. If a failing \<open>commit\<close> leaves the store as it
  found it, the store is exactly the one holding the items of \<open>pre\<close>.
\<close>

theorem AddCollection_fail_fast:
  assumes "Contents x = (Inr cnts, x0)"
  shows "(\<forall>ds s' x'. added D s x0 cnts ds s' x' \<longrightarrow>
            AddCollection D s Contents x = ((ds, None), s', x')) \<and>
         (\<forall>pre ref oci post ds s1 x1 d err s2 x2.
            cnts = pre @ (ref, oci) # post \<and> added D s x0 pre ds s1 x1 \<and>
            AddArtifact D s1 oci ref x1 = ((d, Some err), s2, x2) \<longrightarrow>
            AddCollection D s Contents x = (([], Some err), s2, x2) \<and>
            (commit_keeps_store_on_error D \<longrightarrow> s2 = s1))"
proof (intro conjI allI impI)
  fix ds s' x'
  assume "added D s x0 cnts ds s' x'"
  from AddCollection_loop_added [OF this, of "[]" "[]"]
  show "AddCollection D s Contents x = ((ds, None), s', x')"
    using assms by (simp add: AddCollection_def)
next
  fix pre ref oci post ds s1 x1 d err s2 x2
  assume a: "cnts = pre @ (ref, oci) # post \<and> added D s x0 pre ds s1 x1 \<and>
            AddArtifact D s1 oci ref x1 = ((d, Some err), s2, x2)"
  then have ad: "added D s x0 pre ds s1 x1" by simp
  have "AddCollection D s Contents x = AddCollection_loop D s (pre @ (ref, oci) # post) [] x0"
    using assms a by (simp add: AddCollection_def)
  also have "\<dots> = AddCollection_loop D s1 ((ref, oci) # post) ([] @ ds) x1"
    by (rule AddCollection_loop_added [OF ad])
  also have "\<dots> = (([], Some err), s2, x2)"
    using a by simp
  finally show "AddCollection D s Contents x = (([], Some err), s2, x2)" .
next
  fix pre ref oci post ds s1 x1 d err s2 x2
  assume a: "cnts = pre @ (ref, oci) # post \<and> added D s x0 pre ds s1 x1 \<and>
            AddArtifact D s1 oci ref x1 = ((d, Some err), s2, x2)"
    and k: "commit_keeps_store_on_error D"
  from a have "AddArtifact D s1 oci ref x1 = ((d, Some err), s2, x2)" by simp
  from AddArtifact_error_store [OF this k] show "s2 = s1" .
qed

text \<open>
  Three items of which the second cannot be produced: the first stays committed, the
  second and the third are absent.
\<close>

theorem AddCollection_fail_fast_witness:
  "commit_keeps_store_on_error example_staging \<and>
   AddCollection example_staging example_store example_collection [] =
     (([], Some (Failure ''artifact production'')),
      example_store\<lparr>store := [(''app:1'', ''hello'')]\<rparr>, [])"
proof -
  have c: "example_collection []
           = (Inr ([(''app:1'', ''hello'')] @ (''db:2'', []) # [(''web:3'', ''world'')]), [])"
    by (simp add: example_collection_def)
  have a: "added example_staging example_store [] [(''app:1'', ''hello'')]
             [example_descriptor [(''app:1'', ''hello'')]]
             (example_store\<lparr>store := [(''app:1'', ''hello'')]\<rparr>) []"
    by (rule added_Cons [OF example_add_app added_Nil])
  show ?thesis
    using AddCollection_fail_fast [where Contents = example_collection and D = example_staging
        and s = example_store, OF c] a example_add_db example_commit_keeps
    by blast
qed






subsection \<open>Walk\<close>

lemma Walk_loop_visited:
  assumes "visited fn v ds v'" and "map snd refs = ds"
  shows "Walk_loop fn (refs @ post) v = Walk_loop fn post v'"
  using assms
proof (induction arbitrary: refs rule: visited.induct)
  case (visited_Nil fn v)
  then show ?case by simp
next
  case (visited_Cons fn d v v1 ds v')
  then obtain r rest where "refs = (r, d) # rest" "map snd rest = ds"
    by (cases refs) auto
  with visited_Cons show ?case by simp
qed

lemma Walk_loop_log:
  "Walk_loop (\<lambda>d log. (f d, log @ [d])) refs acc =
     ((case dropWhile (\<lambda>d. f d = None) (map snd refs) of [] \<Rightarrow> None | d # _ \<Rightarrow> f d),
      acc @ takeWhile (\<lambda>d. f d = None) (map snd refs) @
        take 1 (dropWhile (\<lambda>d. f d = None) (map snd refs)))"
  by (induction refs arbitrary: acc) (auto split: option.splits)

text \<open>
  C8. \<open>Walk\<close> calls the visit function on the descriptors the store lists, one call per
  entry, in the order of the enumeration. If every call succeeds, \<open>Walk\<close> returns nil
  after the last. If the calls on the entries \<open>pre\<close> succeed and the next call returns
  an error, \<open>Walk\<close> returns that error and the state that call left: no later entry is
  visited. For a visit function that logs its argument, the log is the descriptors up
  to and including the first one that is refused, and the result is that first error.
\<close>

theorem Walk_stops_at_first_error:
  "(\<forall>v'. visited fn v (map snd (ListReferences C (store s))) v' \<longrightarrow>
       Walk C s fn v = (None, v')) \<and>
   (\<forall>pre r d post v1 err v2.
       ListReferences C (store s) = pre @ (r, d) # post \<and> visited fn v (map snd pre) v1 \<and>
       fn d v1 = (Some err, v2) \<longrightarrow>
       Walk C s fn v = (Some err, v2)) \<and>
   Walk C s (\<lambda>d log. (f d, log @ [d])) [] =
     ((case dropWhile (\<lambda>d. f d = None) (map snd (ListReferences C (store s))) of
         [] \<Rightarrow> None | d # _ \<Rightarrow> f d),
      takeWhile (\<lambda>d. f d = None) (map snd (ListReferences C (store s))) @
        take 1 (dropWhile (\<lambda>d. f d = None) (map snd (ListReferences C (store s)))))"
proof (intro conjI allI impI)
  fix v' assume "visited fn v (map snd (ListReferences C (store s))) v'"
  from Walk_loop_visited [OF this refl, of "[]"]
  show "Walk C s fn v = (None, v')" by (simp add: Walk_def)
next
  fix pre r d post v1 err v2
  assume a: "ListReferences C (store s) = pre @ (r, d) # post \<and> visited fn v (map snd pre) v1 \<and>
       fn d v1 = (Some err, v2)"
  then have "visited fn v (map snd pre) v1" by simp
  from Walk_loop_visited [OF this refl]
  have "Walk_loop fn (pre @ (r, d) # post) v = Walk_loop fn ((r, d) # post) v1" .
  with a show "Walk C s fn v = (Some err, v2)" by (simp add: Walk_def)
next
  show "Walk C s (\<lambda>d log. (f d, log @ [d])) [] =
     ((case dropWhile (\<lambda>d. f d = None) (map snd (ListReferences C (store s))) of
         [] \<Rightarrow> None | d # _ \<Rightarrow> f d),
      takeWhile (\<lambda>d. f d = None) (map snd (ListReferences C (store s))) @
        take 1 (dropWhile (\<lambda>d. f d = None) (map snd (ListReferences C (store s)))))"
    by (simp add: Walk_def Walk_loop_log Let_def)
qed

lemma example_refs:
  "ListReferences example_content (store example_full_store) =
     [(''app:1'', example_descriptor [(''app:1'', ''{text/plain'')])] @
     (''db:2'', example_descriptor [(''db:2'', ''hello'')]) #
     [(''web:3'', example_descriptor [(''web:3'', ''{text/html'')])]"
  by (simp add: example_content_def example_full_store_def example_store_def)

lemma example_visit_app:
  "example_visit (example_descriptor [(''app:1'', ''{text/plain'')]) [] =
     (None, [example_descriptor [(''app:1'', ''{text/plain'')]])"
  by (simp add: example_visit_def example_descriptor_def zero_Descriptor_def)

lemma example_visit_db:
  "example_visit (example_descriptor [(''db:2'', ''hello'')])
       [example_descriptor [(''app:1'', ''{text/plain'')]] =
     (Some (Failure ''visit refused''),
      [example_descriptor [(''app:1'', ''{text/plain'')], example_descriptor [(''db:2'', ''hello'')]])"
  by (simp add: example_visit_def example_descriptor_def zero_Descriptor_def)

text \<open>Three entries, the second refused: the log ends with the second descriptor.\<close>

theorem Walk_stops_at_first_error_witness:
  "Walk example_content example_full_store example_visit [] =
     (Some (Failure ''visit refused''),
      [example_descriptor [(''app:1'', ''{text/plain'')], example_descriptor [(''db:2'', ''hello'')]])"
proof -
  have v: "visited example_visit []
             (map snd [(''app:1'', example_descriptor [(''app:1'', ''{text/plain'')])])
             [example_descriptor [(''app:1'', ''{text/plain'')]]"
    using visited_Cons [where fn = example_visit, OF example_visit_app visited_Nil] by simp
  show ?thesis
    using Walk_stops_at_first_error [of example_visit "[]" example_content example_full_store]
      example_refs v example_visit_db
    by blast
qed

subsection \<open>CopyAll and Identify\<close>

lemma CopyAll_loop_copied:
  assumes "copied C s toMapper to refs to'"
  shows "CopyAll_loop C s (refs @ post) to toMapper = CopyAll_loop C s post to' toMapper"
  using assms
proof (induction rule: copied.induct)
  case (copied_Nil C s toMapper to)
  then show ?case by simp
next
  case (copied_Cons toMapper ref C s to d to1 rest to')
  then show ?case
    by (cases toMapper) (auto simp: mapper_error_def destination_def split: prod.splits)
qed

lemma CopyAll_loop_mapper_error:
  "mapper_error toMapper ref = Some err \<Longrightarrow>
     CopyAll_loop C s (ref # post) to toMapper = (Some err, to)"
  by (cases toMapper) (auto simp: mapper_error_def split: prod.splits)

lemma CopyAll_loop_copy_error:
  "mapper_error toMapper ref = None \<Longrightarrow>
   Copy C s ref to (destination toMapper ref) = ((d, Some err), to2) \<Longrightarrow>
     CopyAll_loop C s (ref # post) to toMapper = (Some err, to2)"
  by (cases toMapper) (auto simp: mapper_error_def destination_def split: prod.splits)

text \<open>
  C6. \<open>CopyAll\<close> goes through the references the store lists. For each it asks the
  mapper for the destination name (with a nil mapper the name is empty, which keeps
  the source name, and there is no mapper error) and calls \<open>Copy\<close>. If all succeed it
  returns nil and the target holds every copy. If the references \<open>pre\<close> are copied and
  the mapper refuses the next one, \<open>CopyAll\<close> returns the mapper's error and the target
  holds exactly the copies of \<open>pre\<close>; if \<open>Copy\<close> fails on the next one, \<open>CopyAll\<close>
  returns that error and the target is as the failing \<open>Copy\<close> left it. Nothing after the
  failing reference is processed and no error is collected.
\<close>

theorem CopyAll_fail_fast:
  "(\<forall>to'. copied C s toMapper to (map fst (ListReferences C (store s))) to' \<longrightarrow>
       CopyAll C s to toMapper = (None, to')) \<and>
   (\<forall>pre ref post to1 err.
       map fst (ListReferences C (store s)) = pre @ ref # post \<and>
       copied C s toMapper to pre to1 \<and> mapper_error toMapper ref = Some err \<longrightarrow>
       CopyAll C s to toMapper = (Some err, to1)) \<and>
   (\<forall>pre ref post to1 d err to2.
       map fst (ListReferences C (store s)) = pre @ ref # post \<and>
       copied C s toMapper to pre to1 \<and> mapper_error toMapper ref = None \<and>
       Copy C s ref to1 (destination toMapper ref) = ((d, Some err), to2) \<longrightarrow>
       CopyAll C s to toMapper = (Some err, to2)) \<and>
   destination None ref0 = [] \<and> mapper_error None ref0 = None"
proof (intro conjI allI impI)
  fix to' assume "copied C s toMapper to (map fst (ListReferences C (store s))) to'"
  from CopyAll_loop_copied [OF this, of "[]"]
  show "CopyAll C s to toMapper = (None, to')" by (simp add: CopyAll_def)
next
  fix pre ref post to1 err
  assume a: "map fst (ListReferences C (store s)) = pre @ ref # post \<and>
       copied C s toMapper to pre to1 \<and> mapper_error toMapper ref = Some err"
  then have "copied C s toMapper to pre to1" by simp
  from CopyAll_loop_copied [OF this]
  have "CopyAll_loop C s (pre @ ref # post) to toMapper = CopyAll_loop C s (ref # post) to1 toMapper" .
  with a show "CopyAll C s to toMapper = (Some err, to1)"
    by (simp add: CopyAll_def CopyAll_loop_mapper_error del: CopyAll_loop.simps)
next
  fix pre ref post to1 d err to2
  assume a: "map fst (ListReferences C (store s)) = pre @ ref # post \<and>
       copied C s toMapper to pre to1 \<and> mapper_error toMapper ref = None \<and>
       Copy C s ref to1 (destination toMapper ref) = ((d, Some err), to2)"
  then have "copied C s toMapper to pre to1" by simp
  from CopyAll_loop_copied [OF this]
  have "CopyAll_loop C s (pre @ ref # post) to toMapper = CopyAll_loop C s (ref # post) to1 toMapper" .
  with a show "CopyAll C s to toMapper = (Some err, to2)"
    by (simp add: CopyAll_def CopyAll_loop_copy_error del: CopyAll_loop.simps)
qed (simp_all add: destination_def mapper_error_def)

lemma example_keys:
  "map fst (ListReferences example_content (store example_full_store)) =
     [''app:1''] @ ''db:2'' # [''web:3'']"
  by (simp add: example_content_def example_full_store_def example_store_def)

lemma example_copy_app:
  "Copy example_content example_full_store ''app:1'' [] (destination (Some example_mapper) ''app:1'') =
     ((example_descriptor [(''app:1'', ''{text/plain'')], None), [(''mirror/app:1'', ''{text/plain'')])"
  by code_simp

lemma example_mapper_app: "mapper_error (Some example_mapper) ''app:1'' = None"
  by (simp add: mapper_error_def example_mapper_def)

lemma example_mapper_db: "mapper_error (Some example_mapper) ''db:2'' = Some (Failure ''no mapping'')"
  by (simp add: mapper_error_def example_mapper_def)

text \<open>Three references, the mapper refuses the second: only the first is copied.\<close>

theorem CopyAll_fail_fast_witness:
  "CopyAll example_content example_full_store [] (Some example_mapper) =
     (Some (Failure ''no mapping''), [(''mirror/app:1'', ''{text/plain'')])"
proof -
  have c: "copied example_content example_full_store (Some example_mapper) [] [''app:1'']
             [(''mirror/app:1'', ''{text/plain'')]"
    by (rule copied_Cons [OF example_mapper_app example_copy_app copied_Nil])
  show ?thesis
    using CopyAll_fail_fast [of example_content example_full_store "Some example_mapper" "[]"]
      example_keys c example_mapper_db
    by blast
qed

text \<open>
  C7. \<open>Identify\<close> fetches the object and decodes it: when both succeed it returns the
  media type of the config that the decoder found; when the fetch fails or the decoder
  reports an error it returns the empty string. Its result is a string only, so no
  error leaves it.
\<close>

theorem Identify_best_effort:
  "(\<forall>err. Fetch C (store s) desc = Inl err \<longrightarrow> Identify C s desc = []) \<and>
   (\<forall>rc m err. Fetch C (store s) desc = Inr rc \<and> json_Decode C rc = (m, Some err) \<longrightarrow>
       Identify C s desc = []) \<and>
   (\<forall>rc m. Fetch C (store s) desc = Inr rc \<and> json_Decode C rc = (m, None) \<longrightarrow>
       Identify C s desc = m)"
  by (simp add: Identify_def)

text \<open>A manifest with a config media type, content that does not decode, and a miss.\<close>

theorem Identify_best_effort_witness:
  "Identify example_content example_full_store (example_descriptor [(''app:1'', [])]) = ''text/plain'' \<and>
   Identify example_content example_full_store (example_descriptor [(''db:2'', [])]) = [] \<and>
   Identify example_content example_full_store zero_Descriptor = []"
proof -
  have 1: "Fetch example_content (store example_full_store) (example_descriptor [(''app:1'', [])]) =
             Inr ''{text/plain''"
    by code_simp
  have 2: "json_Decode example_content ''{text/plain'' = (''text/plain'', None)"
    by code_simp
  have 3: "Fetch example_content (store example_full_store) (example_descriptor [(''db:2'', [])]) =
             Inr ''hello''"
    by code_simp
  have 4: "json_Decode example_content ''hello'' = ([], Some (Failure ''invalid character''))"
    by code_simp
  have 5: "Fetch example_content (store example_full_store) zero_Descriptor = Inl (Failure ''not found'')"
    by code_simp
  show ?thesis
    using Identify_best_effort [of example_content example_full_store "example_descriptor [(''app:1'', [])]"]
      Identify_best_effort [of example_content example_full_store "example_descriptor [(''db:2'', [])]"]
      Identify_best_effort [of example_content example_full_store zero_Descriptor]
      1 2 3 4 5
    by blast
qed

subsection \<open>Flush\<close>







lemma below_sibling: "a \<noteq> b \<Longrightarrow> below (root @ [a]) q \<Longrightarrow> \<not> below (root @ [b]) q"
  unfolding below_def by (auto simp: prefix_def)









section \<open>Properties of package name\<close>

subsection \<open>Splitting and joining\<close>

lemma strings_Split_not_Nil [simp]: "strings_Split s sep \<noteq> []"
  by (induction s) (auto split: list.splits)

lemma strings_Split_no_sep: "sep \<notin> set s \<Longrightarrow> strings_Split s sep = [s]"
  by (induction s) auto

lemma strings_Split_append:
  "strings_Split (a @ sep # b) sep = strings_Split a sep @ strings_Split b sep"
  by (induction a) (auto split: list.splits)

lemma strings_Split_last_no_sep: "sep \<notin> set (last (strings_Split s sep))"
  by (induction s) (auto split: list.splits)

lemma strings_Split_all_no_sep: "w \<in> set (strings_Split s sep) \<Longrightarrow> sep \<notin> set w"
  by (induction s arbitrary: w) (auto split: list.splits if_splits)

lemma strings_Join_snoc:
  "strings_Join (ws @ [w]) sep = (if ws = [] then w else strings_Join ws sep @ sep # w)"
  by (induction ws sep rule: strings_Join.induct) auto

lemma strings_Join_Split: "strings_Join (strings_Split s sep) sep = s"
proof (induction s)
  case Nil
  then show ?case by simp
next
  case (Cons c cs)
  obtain w ws where ws: "strings_Split cs sep = w # ws"
    by (cases "strings_Split cs sep") auto
  with Cons show ?case by (cases ws) auto
qed

lemma strings_Split_cut:
  assumes "length (strings_Split s sep) > 1"
  shows "s = strings_Join (butlast (strings_Split s sep)) sep @ sep # last (strings_Split s sep)"
proof -
  let ?p = "strings_Split s sep"
  have b: "butlast ?p \<noteq> []" using assms by (cases ?p rule: rev_cases) auto
  have "?p = butlast ?p @ [last ?p]" by simp
  then have "strings_Join ?p sep = strings_Join (butlast ?p) sep @ sep # last ?p"
    using strings_Join_snoc [of "butlast ?p" "last ?p" sep] b by simp
  then show ?thesis by (simp add: strings_Join_Split)
qed

lemma strings_Split_two:
  assumes "strings_Split s sep = [a, b]"
  shows "s = a @ sep # b \<and> sep \<notin> set a \<and> sep \<notin> set b"
proof -
  have "s = a @ sep # b"
    using strings_Split_cut [of s sep] assms by simp
  moreover have "sep \<notin> set a" "sep \<notin> set b"
    using strings_Split_all_no_sep [of _ s sep] assms by auto
  ultimately show ?thesis by simp
qed

lemma strings_Split_snoc:
  "sep \<notin> set t \<Longrightarrow> strings_Split (a @ sep # t) sep = strings_Split a sep @ [t]"
  by (simp add: strings_Split_append strings_Split_no_sep)

lemma strings_SplitN2_no_sep: "sep \<notin> set s \<Longrightarrow> strings_SplitN2 s sep = [s]"
  by (simp add: strings_SplitN2_def)

lemma takeWhile_cut: "sep \<notin> set a \<Longrightarrow> takeWhile (\<lambda>c. c \<noteq> sep) (a @ sep # b) = a"
  by (induction a) auto

lemma dropWhile_cut: "sep \<notin> set a \<Longrightarrow> dropWhile (\<lambda>c. c \<noteq> sep) (a @ sep # b) = sep # b"
  by (induction a) auto

lemma strings_SplitN2_cut: "sep \<notin> set a \<Longrightarrow> strings_SplitN2 (a @ sep # b) sep = [a, b]"
  by (simp add: strings_SplitN2_def takeWhile_cut dropWhile_cut)

lemma strings_SplitN2_two:
  assumes "strings_SplitN2 s sep = [a, b]"
  shows "s = a @ sep # b \<and> sep \<notin> set a \<and> a = takeWhile (\<lambda>c. c \<noteq> sep) s"
proof -
  from assms have in_s: "sep \<in> set s"
    and a: "a = takeWhile (\<lambda>c. c \<noteq> sep) s"
    and b: "b = tl (dropWhile (\<lambda>c. c \<noteq> sep) s)"
    by (auto simp: strings_SplitN2_def split: if_splits)
  from in_s have "dropWhile (\<lambda>c. c \<noteq> sep) s \<noteq> []" by simp
  then have "dropWhile (\<lambda>c. c \<noteq> sep) s = sep # b"
    using b hd_dropWhile [of "\<lambda>c. c \<noteq> sep" s]
    by (cases "dropWhile (\<lambda>c. c \<noteq> sep) s") auto
  with a have "s = a @ sep # b"
    using takeWhile_dropWhile_id [of "\<lambda>c. c \<noteq> sep" s] by simp
  moreover have "sep \<notin> set a"
    using a by (auto dest: set_takeWhileD)
  ultimately show ?thesis using a by simp
qed

subsection \<open>The checks\<close>

lemma checkElement_None:
  "checkElement name e allowed mn mx = None \<longleftrightarrow>
     mn \<le> length e \<and> length e \<le> mx \<and> set e \<subseteq> set allowed"
  by (auto simp: checkElement_def filter_empty_conv)

lemma checkRepository_None:
  "checkRepository p = None \<longleftrightarrow> 2 \<le> length p \<and> length p \<le> 255 \<and> set p \<subseteq> set repositoryChars"
  by (simp add: checkRepository_def checkElement_None)

lemma checkTag_None:
  "checkTag t = None \<longleftrightarrow> 1 \<le> length t \<and> length t \<le> 128 \<and> set t \<subseteq> set tagChars"
  by (simp add: checkTag_def checkElement_None)

lemma checkDigest_None:
  "checkDigest d = None \<longleftrightarrow> length d = 71 \<and> set d \<subseteq> set digestChars"
  by (auto simp: checkDigest_def checkElement_None)

lemma repositoryChars_no:
  "set p \<subseteq> set repositoryChars \<Longrightarrow> CHR '':'' \<notin> set p \<and> CHR ''@'' \<notin> set p"
  by (auto simp: repositoryChars_def)

lemma tagChars_no:
  "set t \<subseteq> set tagChars \<Longrightarrow> CHR '':'' \<notin> set t \<and> CHR ''@'' \<notin> set t \<and> CHR ''/'' \<notin> set t"
  by (auto simp: tagChars_def)

lemma digestChars_no:
  "set d \<subseteq> set digestChars \<Longrightarrow> CHR ''@'' \<notin> set d \<and> CHR ''/'' \<notin> set d"
  by (auto simp: digestChars_def)

lemma checkRegistry_host: "checkRegistry U g = None \<longleftrightarrow> U (''//'' @ g) = Some g"
  by (auto simp: checkRegistry_def split: option.splits)

lemma checkRegistry_chars:
  assumes "url_Parse_documented U" and "checkRegistry U g = None"
  shows "CHR ''/'' \<notin> set g \<and> CHR ''@'' \<notin> set g"
proof -
  from assms(2) have "U (''//'' @ g) = Some g" by (simp only: checkRegistry_host)
  with assms(1) show ?thesis unfolding url_Parse_documented_def by blast
qed

lemma checkRegistry_empty: "url_Parse_documented U \<Longrightarrow> checkRegistry U [] = None"
  by (simp add: checkRegistry_host url_Parse_documented_def)

lemma checkRegistry_plain:
  assumes "url_Parse_documented U" and "g \<noteq> []" and "set g \<subseteq> set plainHostChars"
  shows "checkRegistry U g = None"
proof -
  from assms have "U (''//'' @ g) = Some g" unfolding url_Parse_documented_def by blast
  then show ?thesis by (simp only: checkRegistry_host)
qed

lemma checkRegistry_DefaultRegistry:
  "url_Parse_documented U \<Longrightarrow> checkRegistry U DefaultRegistry = None"
  by (rule checkRegistry_plain) (simp_all add: DefaultRegistry_def plainHostChars_def)

subsection \<open>NewRegistry and NewRepository\<close>

lemma NewRegistry_nonstrict:
  "\<not> strict opt \<Longrightarrow>
     NewRegistry U g opt =
       (case checkRegistry U g of
          Some err \<Rightarrow> Inl err
        | None \<Rightarrow> Inr (normalised (if g = [] then defaultRegistry opt else g)))"
  by (simp add: NewRegistry_def normalised_def Let_def split: option.splits)

lemma NewRepository_nonstrict:
  assumes "\<not> strict opt"
  shows "NewRepository U name opt =
     (if name = [] then Inl (ErrBadName ''a repository name must be specified'')
      else if names_registry name
      then (case checkRepository (tl (dropWhile (\<lambda>c. c \<noteq> CHR ''/'') name)) of
              Some err \<Rightarrow> Inl err
            | None \<Rightarrow>
                (case checkRegistry U (takeWhile (\<lambda>c. c \<noteq> CHR ''/'') name) of
                   Some err \<Rightarrow> Inl err
                 | None \<Rightarrow>
                     Inr \<lparr>registry = normalised (takeWhile (\<lambda>c. c \<noteq> CHR ''/'') name),
                          repository = tl (dropWhile (\<lambda>c. c \<noteq> CHR ''/'') name)\<rparr>))
      else (case checkRepository name of
              Some err \<Rightarrow> Inl err
            | None \<Rightarrow>
                (case checkRegistry U [] of
                   Some err \<Rightarrow> Inl err
                 | None \<Rightarrow>
                     Inr \<lparr>registry = normalised (defaultRegistry opt), repository = name\<rparr>)))"
proof (cases "name = []")
  case True
  then show ?thesis by (simp add: NewRepository_def)
next
  case ne: False
  show ?thesis
  proof (cases "names_registry name")
    case True
    then have sl: "CHR ''/'' \<in> set name"
      and dot: "CHR ''.'' \<in> set (takeWhile (\<lambda>c. c \<noteq> CHR ''/'') name) \<or>
                CHR '':'' \<in> set (takeWhile (\<lambda>c. c \<noteq> CHR ''/'') name)"
      by (simp_all add: names_registry_def)
    from dot have g: "takeWhile (\<lambda>c. c \<noteq> CHR ''/'') name \<noteq> []" by auto
    show ?thesis
      using ne True sl dot g assms
      by (simp add: NewRepository_def strings_SplitN2_def ContainsRune_def
          NewRegistry_nonstrict split: option.splits)
  next
    case False
    show ?thesis
    proof (cases "CHR ''/'' \<in> set name")
      case True
      with False have "\<not> (CHR ''.'' \<in> set (takeWhile (\<lambda>c. c \<noteq> CHR ''/'') name) \<or>
                CHR '':'' \<in> set (takeWhile (\<lambda>c. c \<noteq> CHR ''/'') name))"
        by (simp add: names_registry_def)
      then show ?thesis
        using ne False True assms
        by (simp add: NewRepository_def strings_SplitN2_def ContainsRune_def
          NewRegistry_nonstrict split: option.splits)
    next
      case no: False
      then show ?thesis
        using ne False assms
        by (simp add: NewRepository_def strings_SplitN2_def
          NewRegistry_nonstrict split: option.splits)
    qed
  qed
qed

lemma names_registry_cut:
  "CHR ''/'' \<notin> set g \<Longrightarrow>
     names_registry (g @ CHR ''/'' # p) \<longleftrightarrow> CHR ''.'' \<in> set g \<or> CHR '':'' \<in> set g"
  by (simp add: names_registry_def takeWhile_cut)

lemma NewRepository_explicit:
  assumes "CHR ''/'' \<notin> set g" and "CHR ''.'' \<in> set g \<or> CHR '':'' \<in> set g"
    and "checkRepository p = None" and "checkRegistry U g = None" and "\<not> strict opt"
  shows "NewRepository U (g @ CHR ''/'' # p) opt = Inr \<lparr>registry = normalised g, repository = p\<rparr>"
  using assms
  by (simp add: NewRepository_nonstrict names_registry_cut takeWhile_cut dropWhile_cut)

lemma NewRepository_implicit:
  assumes "\<not> names_registry name" and "checkRepository name = None" and "\<not> strict opt"
    and "checkRegistry U [] = None"
  shows "NewRepository U name opt =
           Inr \<lparr>registry = normalised (defaultRegistry opt), repository = name\<rparr>"
proof -
  from assms(2) have ne: "name \<noteq> []" by (auto simp: checkRepository_None)
  then show ?thesis using assms by (simp add: NewRepository_nonstrict)
qed

lemma NewRepository_Inr:
  assumes "NewRepository U name opt = Inr r" and "\<not> strict opt"
  shows "checkRepository (repository r) = None \<and>
         (if names_registry name
          then \<exists>g. name = g @ CHR ''/'' # repository r \<and> CHR ''/'' \<notin> set g \<and>
                   (CHR ''.'' \<in> set g \<or> CHR '':'' \<in> set g) \<and> checkRegistry U g = None \<and>
                   registry r = normalised g
          else repository r = name \<and> registry r = normalised (defaultRegistry opt))"
proof (cases "names_registry name")
  case True
  then have sl: "CHR ''/'' \<in> set name" by (simp add: names_registry_def)
  define g where "g = takeWhile (\<lambda>c. c \<noteq> CHR ''/'') name"
  define p where "p = tl (dropWhile (\<lambda>c. c \<noteq> CHR ''/'') name)"
  have sp: "strings_SplitN2 name (CHR ''/'') = [g, p]"
    using sl by (simp add: strings_SplitN2_def g_def p_def)
  from strings_SplitN2_two [OF sp] have nm: "name = g @ CHR ''/'' # p" and ng: "CHR ''/'' \<notin> set g"
    by blast+
  from True have dot: "CHR ''.'' \<in> set g \<or> CHR '':'' \<in> set g"
    by (simp add: names_registry_def g_def)
  from sl have ne: "name \<noteq> []" by auto
  have eq: "(case checkRepository p of
               Some err \<Rightarrow> Inl err
             | None \<Rightarrow>
                (case checkRegistry U g of
                   Some err \<Rightarrow> Inl err
                 | None \<Rightarrow> Inr \<lparr>registry = normalised g, repository = p\<rparr>)) = Inr r"
    unfolding g_def p_def
    using assms(1) True ne by (simp add: NewRepository_nonstrict [OF assms(2)])
  then have cp: "checkRepository p = None" by (cases "checkRepository p") simp_all
  with eq have cg: "checkRegistry U g = None" by (cases "checkRegistry U g") simp_all
  with eq cp have r: "r = \<lparr>registry = normalised g, repository = p\<rparr>" by simp
  show ?thesis using True nm ng dot cp cg r by auto
next
  case False
  from assms(1) have ne: "name \<noteq> []"
    by (auto simp: NewRepository_def)
  have eq: "(case checkRepository name of
              Some err \<Rightarrow> Inl err
            | None \<Rightarrow>
                (case checkRegistry U [] of
                   Some err \<Rightarrow> Inl err
                 | None \<Rightarrow>
                     Inr \<lparr>registry = normalised (defaultRegistry opt), repository = name\<rparr>)) = Inr r"
    using assms(1) False ne by (simp add: NewRepository_nonstrict [OF assms(2)])
  then have cp: "checkRepository name = None" by (cases "checkRepository name") simp_all
  with eq have "r = \<lparr>registry = normalised (defaultRegistry opt), repository = name\<rparr>"
    by (cases "checkRegistry U []") simp_all
  with False cp show ?thesis by simp
qed

lemma NewTag_nonstrict:
  assumes "\<not> strict opt"
  shows "NewTag U name opt =
     (case (if snd (tag_split name) \<noteq> [] then checkTag (snd (tag_split name)) else None) of
        Some err \<Rightarrow> Inl err
      | None \<Rightarrow>
          (case NewRepository U (fst (tag_split name)) opt of
             Inl err \<Rightarrow> Inl err
           | Inr repo \<Rightarrow>
               Inr (NameTag repo (if snd (tag_split name) = [] then defaultTag opt
                                  else snd (tag_split name)))))"
proof (cases "length (strings_Split name (CHR '':'')) > 1 \<and>
              \<not> ContainsRune (last (strings_Split name (CHR '':''))) (CHR ''/'')")
  case True
  then have "tag_split name =
      (strings_Join (butlast (strings_Split name (CHR '':''))) (CHR '':''),
       last (strings_Split name (CHR '':'')))"
    by (simp add: tag_split_def Let_def)
  with True assms show ?thesis
    by (simp add: NewTag_def Let_def split: option.splits sum.splits)
next
  case False
  then have "tag_split name = (name, [])"
    by (auto simp: tag_split_def Let_def)
  with False assms show ?thesis
    by (auto simp: NewTag_def Let_def split: option.splits sum.splits)
qed

lemma tag_split_no_colon: "CHR '':'' \<notin> set name \<Longrightarrow> tag_split name = (name, [])"
  by (simp add: tag_split_def Let_def strings_Split_no_sep)

lemma tag_split_cut:
  assumes "CHR '':'' \<notin> set t" and "CHR ''/'' \<notin> set t"
  shows "tag_split (a @ CHR '':'' # t) = (a, t)"
  using assms
  by (simp add: tag_split_def Let_def strings_Split_snoc ContainsRune_def strings_Join_Split)

lemma tag_split_slash:
  assumes "CHR '':'' \<notin> set t" and "CHR ''/'' \<in> set t"
  shows "tag_split (a @ CHR '':'' # t) = (a @ CHR '':'' # t, [])"
  using assms
  by (simp add: tag_split_def Let_def strings_Split_snoc ContainsRune_def)

lemma tag_split_cases:
  assumes "tag_split name = (base, tag)"
  shows "(base = name \<and> tag = []) \<or>
         (name = base @ CHR '':'' # tag \<and> CHR '':'' \<notin> set tag \<and> CHR ''/'' \<notin> set tag)"
proof (cases "length (strings_Split name (CHR '':'')) > 1 \<and>
              \<not> ContainsRune (last (strings_Split name (CHR '':''))) (CHR ''/'')")
  case True
  with assms have b: "base = strings_Join (butlast (strings_Split name (CHR '':''))) (CHR '':'')"
    and t: "tag = last (strings_Split name (CHR '':''))"
    by (simp_all add: tag_split_def Let_def)
  from True have "name = base @ CHR '':'' # tag"
    using strings_Split_cut [of name "CHR '':''"] b t by simp
  moreover have "CHR '':'' \<notin> set tag"
    using t strings_Split_last_no_sep by simp
  moreover have "CHR ''/'' \<notin> set tag"
    using True t by (simp add: ContainsRune_def)
  ultimately show ?thesis by simp
next
  case False
  with assms show ?thesis by (auto simp: tag_split_def Let_def)
qed

lemma tag_split_registry_path:
  assumes "CHR '':'' \<notin> set p"
  shows "tag_split (g @ CHR ''/'' # p) = (g @ CHR ''/'' # p, [])"
proof (cases "CHR '':'' \<in> set g")
  case True
  from split_list_last [OF True] obtain h port
    where g: "g = h @ CHR '':'' # port" and port: "CHR '':'' \<notin> set port" by blast
  have "tag_split (h @ CHR '':'' # (port @ CHR ''/'' # p)) = (h @ CHR '':'' # (port @ CHR ''/'' # p), [])"
    by (rule tag_split_slash) (use port assms in auto)
  with g show ?thesis by simp
next
  case False
  with assms show ?thesis by (simp add: tag_split_no_colon)
qed

lemma normalised_good: "good_registry U g \<Longrightarrow> normalised g = g"
  by (simp add: good_registry_def normalised_def)

lemma good_registry_Default:
  assumes "url_Parse_documented U"
  shows "good_registry U DefaultRegistry"
proof -
  have "CHR ''.'' \<in> set DefaultRegistry" "DefaultRegistry \<noteq> defaultRegistryAlias"
    by (simp_all add: DefaultRegistry_def defaultRegistryAlias_def)
  with checkRegistry_DefaultRegistry [OF assms] show ?thesis
    by (simp add: good_registry_def)
qed

lemma good_registry_normalised:
  assumes "url_Parse_documented U"
    and "checkRegistry U g = None" and "CHR ''.'' \<in> set g \<or> CHR '':'' \<in> set g"
  shows "good_registry U (normalised g)"
proof (cases "g = defaultRegistryAlias")
  case True
  then show ?thesis by (simp add: normalised_def good_registry_Default [OF assms(1)])
next
  case False
  with assms show ?thesis by (simp add: normalised_def good_registry_def)
qed

lemma good_registry_nonempty: "good_registry U g \<Longrightarrow> g \<noteq> []"
  by (auto simp: good_registry_def)

lemma good_registry_chars:
  assumes "url_Parse_documented U" and "good_registry U g"
  shows "CHR ''/'' \<notin> set g" "CHR ''@'' \<notin> set g"
  using assms checkRegistry_chars [where U = U and g = g] by (auto simp: good_registry_def)

text \<open>Canonical names parse back.\<close>

lemma NewRepository_canonical:
  assumes "url_Parse_documented U"
    and "good_registry U g" and "checkRepository p = None" and "\<not> strict opt"
  shows "NewRepository U (g @ CHR ''/'' # p) opt = Inr \<lparr>registry = g, repository = p\<rparr>"
  using NewRepository_explicit [where g = g and p = p and U = U and opt = opt]
    assms(2-) good_registry_chars [OF assms(1,2)]
  by (simp add: good_registry_def normalised_good [OF assms(2)])

lemma NewTag_canonical_base:
  assumes "url_Parse_documented U"
    and "good_registry U g" and "checkRepository p = None" and "\<not> strict opt"
  shows "NewTag U (g @ CHR ''/'' # p) opt = Inr (NameTag \<lparr>registry = g, repository = p\<rparr> (defaultTag opt))"
proof -
  from assms(3) have "CHR '':'' \<notin> set p"
    using repositoryChars_no by (simp add: checkRepository_None)
  then have "tag_split (g @ CHR ''/'' # p) = (g @ CHR ''/'' # p, [])"
    by (rule tag_split_registry_path)
  then show ?thesis
    by (simp add: NewTag_nonstrict [OF assms(4)] NewRepository_canonical [OF assms])
qed

lemma NewTag_canonical:
  assumes "url_Parse_documented U"
    and "good_registry U g" and "checkRepository p = None" and "checkTag t = None" and "\<not> strict opt"
  shows "NewTag U (g @ CHR ''/'' # p @ CHR '':'' # t) opt = Inr (NameTag \<lparr>registry = g, repository = p\<rparr> t)"
proof -
  from assms(4) have t: "CHR '':'' \<notin> set t" "CHR ''/'' \<notin> set t" "t \<noteq> []"
    using tagChars_no [of t] by (auto simp: checkTag_None)
  have "tag_split ((g @ CHR ''/'' # p) @ CHR '':'' # t) = (g @ CHR ''/'' # p, t)"
    by (rule tag_split_cut [OF t(1,2)])
  then show ?thesis
    using t(3) assms(4)
    by (simp add: NewTag_nonstrict [OF assms(5)] NewRepository_canonical [OF assms(1,2,3,5)])
qed

lemma NewTag_plain:
  assumes "\<not> names_registry p" and "checkRepository p = None" and "\<not> strict opt"
    and "checkRegistry U [] = None"
  shows "NewTag U p opt =
           Inr (NameTag \<lparr>registry = normalised (defaultRegistry opt), repository = p\<rparr> (defaultTag opt))"
proof -
  from assms(2) have "CHR '':'' \<notin> set p"
    using repositoryChars_no by (simp add: checkRepository_None)
  then have "tag_split p = (p, [])" by (rule tag_split_no_colon)
  then show ?thesis
    by (simp add: NewTag_nonstrict [OF assms(3)] NewRepository_implicit [OF assms])
qed


lemma NewTag_Inr:
  assumes "NewTag U name opt = Inr ref" and "\<not> strict opt"
  shows "\<exists>r. NewRepository U (fst (tag_split name)) opt = Inr r \<and>
             (if snd (tag_split name) = [] then ref = NameTag r (defaultTag opt)
              else checkTag (snd (tag_split name)) = None \<and> ref = NameTag r (snd (tag_split name)))"
  using assms(1) unfolding NewTag_nonstrict [OF assms(2)]
  by (auto split: option.splits sum.splits if_splits)


lemma NewDigest_no_at: "CHR ''@'' \<notin> set name \<Longrightarrow> \<exists>err. NewDigest U name opt = Inl err"
  by (simp add: NewDigest_def strings_Split_no_sep)

lemma makeOptions_simps [simp]:
  "\<not> strict makeOptions" "defaultRegistry makeOptions = DefaultRegistry"
  "defaultTag makeOptions = ''latest''"
  "\<not> strict (WithDefaultRegistry reg opt) \<longleftrightarrow> \<not> strict opt"
  "defaultRegistry (WithDefaultRegistry reg opt) = reg"
  "defaultTag (WithDefaultRegistry reg opt) = defaultTag opt"
  "\<not> strict (WithDefaultTag t opt) \<longleftrightarrow> \<not> strict opt"
  "defaultRegistry (WithDefaultTag t opt) = defaultRegistry opt"
  "defaultTag (WithDefaultTag t opt) = t"
  by (simp_all add: makeOptions_def WithDefaultRegistry_def WithDefaultTag_def)

lemma checkTag_latest: "checkTag ''latest'' = None"
  by code_simp

lemma NewRepository_good:
  assumes "url_Parse_documented U"
    and "NewRepository U name opt = Inr r" and "\<not> strict opt"
    and "good_registry U (normalised (defaultRegistry opt))"
  shows "good_registry U (registry r) \<and> checkRepository (repository r) = None"
proof -
  note I = NewRepository_Inr [OF assms(2,3)]
  show ?thesis
  proof (cases "names_registry name")
    case True
    with I obtain g where "checkRegistry U g = None" "CHR ''.'' \<in> set g \<or> CHR '':'' \<in> set g"
      "registry r = normalised g" by auto
    with I good_registry_normalised [OF assms(1), of g] show ?thesis by simp
  next
    case False
    with I assms(4) show ?thesis by auto
  qed
qed

lemma normalised_Default: "normalised DefaultRegistry = DefaultRegistry"
  by (simp add: normalised_def DefaultRegistry_def defaultRegistryAlias_def)

lemma NewDigest_Inr:
  assumes "NewDigest U name opt = Inr ref"
  shows "\<exists>base d r. name = base @ CHR ''@'' # d \<and> checkDigest d = None \<and>
           ref = NameDigest r d \<and>
           NewRepository U (case NewTag U base opt of Inr tag \<Rightarrow> Repository_Name (Context tag)
                          | Inl err \<Rightarrow> base) opt = Inr r"
proof -
  from assms obtain base d where sp: "strings_Split name (CHR ''@'') = [base, d]"
    unfolding NewDigest_def
    by (auto split: list.splits)
  from strings_Split_two [OF sp] have nm: "name = base @ CHR ''@'' # d" by simp
  from assms sp have cd: "checkDigest d = None"
    unfolding NewDigest_def by (cases "checkDigest d") simp_all
  from assms sp cd obtain r where
    "NewRepository U (case NewTag U base opt of Inr tag \<Rightarrow> Repository_Name (Context tag)
                          | Inl err \<Rightarrow> base) opt = Inr r" "ref = NameDigest r d"
    unfolding NewDigest_def Let_def by (auto split: sum.splits)
  with nm cd show ?thesis by blast
qed

lemma parse_well_formed:
  assumes "url_Parse_documented U"
    and "name_ParseReference U opt s = Inr ref" and "\<not> strict opt"
    and "good_registry U (normalised (defaultRegistry opt))" and "checkTag (defaultTag opt) = None"
  shows "well_formed U ref"
proof (cases "NewTag U s opt")
  case (Inr t)
  with assms(2) have "ref = t" by (simp add: name_ParseReference_def)
  with Inr NewTag_Inr [OF _ assms(3)] obtain r where
    r: "NewRepository U (fst (tag_split s)) opt = Inr r"
    and t: "if snd (tag_split s) = [] then ref = NameTag r (defaultTag opt)
              else checkTag (snd (tag_split s)) = None \<and> ref = NameTag r (snd (tag_split s))"
    by blast
  from NewRepository_good [OF assms(1) r assms(3,4)] t assms(5) show ?thesis
    by (auto simp: well_formed_def split: if_splits)
next
  case (Inl e)
  with assms(2) have "NewDigest U s opt = Inr ref"
    by (auto simp: name_ParseReference_def split: sum.splits)
  from NewDigest_Inr [OF this] obtain base d r where
    "checkDigest d = None" "ref = NameDigest r d"
    "NewRepository U (case NewTag U base opt of Inr tag \<Rightarrow> Repository_Name (Context tag)
                          | Inl err \<Rightarrow> base) opt = Inr r" by blast
  with NewRepository_good [OF assms(1) _ assms(3,4)] show ?thesis
    by (auto simp: well_formed_def)
qed

lemma parse_default_well_formed:
  assumes "url_Parse_documented U" and "name_ParseReference U makeOptions s = Inr ref"
  shows "well_formed U ref"
  by (rule parse_well_formed [OF assms])
    (simp_all add: normalised_Default good_registry_Default [OF assms(1)] checkTag_latest)


lemma RepositoryStr_again:
  "RepositoryStr \<lparr>registry = registry r, repository = RepositoryStr r\<rparr> = RepositoryStr r"
  by (simp add: RepositoryStr_def hasImplicitNamespace_def ContainsRune_def)

lemma Repository_Name_good:
  "good_registry U (registry r) \<Longrightarrow> Repository_Name r = registry r @ CHR ''/'' # RepositoryStr r"
  using good_registry_nonempty [of U "registry r"] by (simp add: Repository_Name_def)

lemma NewDigest_canonical:
  assumes doc: "url_Parse_documented U"
    and g: "good_registry U g" and p: "checkRepository p = None"
    and pp: "RepositoryStr \<lparr>registry = g, repository = p\<rparr> = p"
    and d: "checkDigest d = None" and o: "\<not> strict opt"
  shows "NewDigest U (g @ CHR ''/'' # p @ CHR ''@'' # d) opt = Inr (NameDigest \<lparr>registry = g, repository = p\<rparr> d)"
proof -
  from d have dn: "CHR ''@'' \<notin> set d"
    using digestChars_no [of d] by (simp add: checkDigest_None)
  from p have pn: "CHR ''@'' \<notin> set p"
    using repositoryChars_no [of p] by (simp add: checkRepository_None)
  from doc g have gn: "CHR ''@'' \<notin> set g" by (rule good_registry_chars)
  have "strings_Split ((g @ CHR ''/'' # p) @ CHR ''@'' # d) (CHR ''@'') =
          strings_Split (g @ CHR ''/'' # p) (CHR ''@'') @ [d]"
    by (rule strings_Split_snoc [OF dn])
  also have "strings_Split (g @ CHR ''/'' # p) (CHR ''@'') = [g @ CHR ''/'' # p]"
    by (rule strings_Split_no_sep) (use gn pn in auto)
  finally have sp: "strings_Split (g @ CHR ''/'' # p @ CHR ''@'' # d) (CHR ''@'') = [g @ CHR ''/'' # p, d]"
    by simp
  have nt: "NewTag U (g @ CHR ''/'' # p) opt = Inr (NameTag \<lparr>registry = g, repository = p\<rparr> (defaultTag opt))"
    by (rule NewTag_canonical_base [OF doc g p o])
  have rn: "Repository_Name \<lparr>registry = g, repository = p\<rparr> = g @ CHR ''/'' # p"
    using Repository_Name_good [of U "\<lparr>registry = g, repository = p\<rparr>"] g pp by simp
  show ?thesis
    unfolding NewDigest_def sp
    by (simp add: d nt rn NewRepository_canonical [OF doc g p o])
qed

lemma Name_tag_no_at:
  assumes "url_Parse_documented U"
    and "good_registry U (registry r)" and "checkRepository (RepositoryStr r) = None"
    and "checkTag t = None"
  shows "CHR ''@'' \<notin> set (Name (NameTag r t))"
proof -
  have "CHR ''@'' \<notin> set (registry r)" using assms(1,2) by (rule good_registry_chars)
  moreover have "CHR ''@'' \<notin> set (RepositoryStr r)"
    using assms(3) repositoryChars_no [of "RepositoryStr r"] by (simp add: checkRepository_None)
  moreover have "CHR ''@'' \<notin> set t"
    using assms(4) tagChars_no [of t] by (simp add: checkTag_None)
  ultimately show ?thesis
    by (simp add: Repository_Name_good [OF assms(2)])
qed

lemma relocate_parsed:
  assumes doc: "url_Parse_documented U"
    and "name_ParseReference U makeOptions reference = Inr ref"
    and "checkRepository (RepositoryStr (Context ref)) = None"
    and "\<not> names_registry (RepositoryStr (Context ref))"
  shows "\<exists>out. RelocateReference U reference reg = Inr out \<and>
           registry (Context out) = normalised reg \<and>
           repository (Context out) = RepositoryStr (Context ref) \<and>
           Identifier out = Identifier ref \<and>
           digest_form out = digest_form ref"
proof -
  let ?p = "RepositoryStr (Context ref)"
  from parse_default_well_formed [OF assms(1,2)] have wf: "well_formed U ref" .
  have rel: "name_ParseReference U (WithDefaultRegistry reg makeOptions) ?p =
          Inr (NameTag \<lparr>registry = normalised reg, repository = ?p\<rparr> ''latest'')"
    using NewTag_plain [OF assms(4,3) _ checkRegistry_empty [OF doc],
        of "WithDefaultRegistry reg makeOptions"]
    by (simp add: name_ParseReference_def)
  show ?thesis
  proof (cases ref)
    case (NameTag r t)
    with wf assms(3) have "CHR ''@'' \<notin> set (Name ref)"
      using Name_tag_no_at [OF doc, of r t] by (simp add: well_formed_def)
    from NewDigest_no_at [OF this] obtain err where "NewDigest U (Name ref) makeOptions = Inl err" ..
    with assms(2) rel NameTag show ?thesis
      by (simp add: RelocateReference_def Repository_Tag_def)
  next
    case (NameDigest r d)
    with wf have g: "good_registry U (registry r)" and p: "checkRepository (repository r) = None"
      and d: "checkDigest d = None"
      by (simp_all add: well_formed_def)
    from NameDigest assms(3) have p': "checkRepository (RepositoryStr r) = None" by simp
    have "NewDigest U (registry r @ CHR ''/'' # RepositoryStr r @ CHR ''@'' # d) makeOptions =
            Inr (NameDigest \<lparr>registry = registry r, repository = RepositoryStr r\<rparr> d)"
      by (rule NewDigest_canonical [OF doc g p' RepositoryStr_again d]) simp
    then have "NewDigest U (Name ref) makeOptions =
            Inr (NameDigest \<lparr>registry = registry r, repository = RepositoryStr r\<rparr> d)"
      using NameDigest by (simp add: Repository_Name_good [OF g])
    with assms(2) rel NameDigest show ?thesis
      by (simp add: RelocateReference_def Repository_Digest_def)
  qed
qed





text \<open>Parsing with the options of AddArtifact.\<close>

lemma names_registry_prefix:
  assumes "names_registry base"
  shows "names_registry (base @ rest)"
proof -
  from assms have sl: "CHR ''/'' \<in> set base" by (simp add: names_registry_def)
  then have "takeWhile (\<lambda>c. c \<noteq> CHR ''/'') (base @ rest) = takeWhile (\<lambda>c. c \<noteq> CHR ''/'') base"
    by (rule takeWhile_append1) simp
  with assms sl show ?thesis by (simp add: names_registry_def)
qed

lemma normalised_empty: "normalised [] = []"
  by (simp add: normalised_def defaultRegistryAlias_def)

lemma NewTag_no_registry:
  assumes "NewTag U name opt = Inr ref" and "\<not> strict opt" and "defaultRegistry opt = []"
    and "\<not> names_registry name"
  shows "registry (Context ref) = [] \<and> \<not> names_registry (repository (Context ref)) \<and>
         NewRepository U (repository (Context ref)) opt = Inr (Context ref)"
proof -
  obtain base tag where ts: "tag_split name = (base, tag)" by (cases "tag_split name")
  from NewTag_Inr [OF assms(1,2)] ts obtain r where r: "NewRepository U base opt = Inr r"
    and c: "Context ref = r" by (auto split: if_splits)
  from tag_split_cases [OF ts] assms(4) have nb: "\<not> names_registry base"
    using names_registry_prefix [of base "CHR '':'' # tag"] by auto
  with NewRepository_Inr [OF r assms(2)] assms(3)
  have "repository r = base" "registry r = []"
    by (simp_all add: normalised_empty)
  with nb r c show ?thesis by simp
qed

lemma parse_no_registry:
  assumes "name_ParseReference U opt reference = Inr ref" and "\<not> strict opt"
    and "defaultRegistry opt = []" and "\<not> names_registry reference"
  shows "registry (Context ref) = []"
proof (cases "NewTag U reference opt")
  case (Inr t)
  with assms(1) have "ref = t" by (simp add: name_ParseReference_def)
  with Inr NewTag_no_registry [OF _ assms(2,3,4)] show ?thesis by simp
next
  case (Inl e)
  with assms(1) have "NewDigest U reference opt = Inr ref"
    by (auto simp: name_ParseReference_def split: sum.splits)
  from NewDigest_Inr [OF this] obtain base d r where
    nm: "reference = base @ CHR ''@'' # d" and ref: "ref = NameDigest r d"
    and r: "NewRepository U (case NewTag U base opt of Inr tag \<Rightarrow> Repository_Name (Context tag)
                          | Inl err \<Rightarrow> base) opt = Inr r" by blast
  from nm assms(4) have nb: "\<not> names_registry base"
    using names_registry_prefix [of base "CHR ''@'' # d"] by auto
  have "registry r = []"
  proof (cases "NewTag U base opt")
    case (Inr tag)
    from NewTag_no_registry [OF Inr assms(2,3) nb]
    have t: "registry (Context tag) = []" "\<not> names_registry (repository (Context tag))"
      by simp_all
    then have "Repository_Name (Context tag) = repository (Context tag)"
      by (simp add: Repository_Name_def RepositoryStr_def hasImplicitNamespace_def DefaultRegistry_def)
    with r Inr have "NewRepository U (repository (Context tag)) opt = Inr r" by simp
    from NewRepository_Inr [OF this assms(2)] t(2) assms(3) show ?thesis
      by (simp add: normalised_empty)
  next
    case (Inl e')
    with r have "NewRepository U base opt = Inr r" by simp
    from NewRepository_Inr [OF this assms(2)] nb assms(3) show ?thesis
      by (simp add: normalised_empty)
  qed
  with ref show ?thesis by simp
qed

lemma parse_tag_default:
  assumes "name_ParseReference U opt reference = Inr (NameTag r t)" and "\<not> strict opt"
  shows "t = defaultTag opt \<or> (\<exists>base. reference = base @ '':'' @ t)"
proof (cases "NewTag U reference opt")
  case (Inr x)
  with assms(1) have x: "NewTag U reference opt = Inr (NameTag r t)"
    by (simp add: name_ParseReference_def)
  obtain base tag where ts: "tag_split reference = (base, tag)" by (cases "tag_split reference")
  from NewTag_Inr [OF x assms(2)] ts have "t = defaultTag opt \<or> (tag \<noteq> [] \<and> t = tag)"
    by (auto split: if_splits)
  with tag_split_cases [OF ts] show ?thesis by auto
next
  case (Inl e)
  with assms(1) have "NewDigest U reference opt = Inr (NameTag r t)"
    by (auto simp: name_ParseReference_def split: sum.splits)
  from NewDigest_Inr [OF this] show ?thesis by auto
qed

subsection \<open>The example of url.Parse\<close>

lemma hostChars_no: "CHR ''/'' \<notin> set hostChars" "CHR ''@'' \<notin> set hostChars"
  by (simp_all add: hostChars_def)

lemma portChars_no: "CHR ''/'' \<notin> set portChars" "CHR ''@'' \<notin> set portChars"
  by (simp_all add: portChars_def)

lemma set_dropWhile_tl:
  "set (dropWhile (\<lambda>c. c \<noteq> a) xs) \<subseteq> insert a (set (tl (dropWhile (\<lambda>c. c \<noteq> a) xs)))"
  by (induction xs) auto

lemma plain_authority_chars:
  assumes "plain_authority g"
  shows "CHR ''/'' \<notin> set g \<and> CHR ''@'' \<notin> set g"
proof (cases "g = []")
  case True
  then show ?thesis by simp
next
  case False
  let ?h = "takeWhile (\<lambda>c. c \<noteq> CHR '':'') g" and ?p = "dropWhile (\<lambda>c. c \<noteq> CHR '':'') g"
  from assms False have h: "set ?h \<subseteq> set hostChars" and p: "set (tl ?p) \<subseteq> set portChars"
    unfolding plain_authority_def by blast+
  have hn: "CHR ''/'' \<notin> set ?h" "CHR ''@'' \<notin> set ?h"
    using h hostChars_no by blast+
  have tn: "CHR ''/'' \<notin> set (tl ?p)" "CHR ''@'' \<notin> set (tl ?p)"
    using p portChars_no by blast+
  have sub: "set ?p \<subseteq> insert (CHR '':'') (set (tl ?p))"
    by (rule set_dropWhile_tl)
  have "CHR ''/'' \<noteq> CHR '':''" "CHR ''@'' \<noteq> CHR '':''" by simp_all
  with sub tn have pn: "CHR ''/'' \<notin> set ?p" "CHR ''@'' \<notin> set ?p"
    by blast+
  have "set g = set ?h \<union> set ?p"
    by (metis set_append takeWhile_dropWhile_id)
  with hn pn show ?thesis by blast
qed

lemma plainHostChars_hostChars: "set plainHostChars \<subseteq> set hostChars"
  by code_simp

lemma plainHostChars_no_colon: "CHR '':'' \<notin> set plainHostChars"
  by (simp add: plainHostChars_def)

lemma plain_host_authority:
  assumes "name \<noteq> []" and "set name \<subseteq> set plainHostChars"
  shows "plain_authority name"
proof -
  from assms(2) plainHostChars_no_colon have nc: "CHR '':'' \<notin> set name" by blast
  then have t: "takeWhile (\<lambda>c. c \<noteq> CHR '':'') name = name"
    and d: "dropWhile (\<lambda>c. c \<noteq> CHR '':'') name = []"
    by (auto simp: takeWhile_eq_all_conv dropWhile_eq_Nil_conv)
  from assms(2) plainHostChars_hostChars have "set name \<subseteq> set hostChars" by blast
  with assms(1) show ?thesis
    unfolding plain_authority_def t d by simp
qed

lemma example_url_authority:
  "example_url (CHR ''/'' # CHR ''/'' # name) = (if plain_authority name then Some name else None)"
  by (simp add: example_url_def)

lemma example_url_documented: "url_Parse_documented example_url"
  unfolding url_Parse_documented_def
proof (intro conjI allI impI)
  show "example_url ''//'' = Some []"
    by (simp add: example_url_def plain_authority_def)
next
  fix name :: string
  assume "name \<noteq> [] \<and> set name \<subseteq> set plainHostChars"
  then have "plain_authority name" by (simp add: plain_host_authority)
  then show "example_url (''//'' @ name) = Some name"
    by (simp add: example_url_authority)
next
  fix name
  assume "example_url (''//'' @ name) = Some name"
  then have "plain_authority name"
    by (simp add: example_url_authority split: if_splits)
  then show "CHR ''/'' \<notin> set name" by (simp add: plain_authority_chars)
next
  fix name
  assume "example_url (''//'' @ name) = Some name"
  then have "plain_authority name"
    by (simp add: example_url_authority split: if_splits)
  then show "CHR ''@'' \<notin> set name" by (simp add: plain_authority_chars)
qed

section \<open>Properties of RelocateReference and of the reference AddArtifact parses\<close>

lemma good_registry_plain:
  assumes "url_Parse_documented U" and "g \<noteq> []" and "set g \<subseteq> set plainHostChars"
    and "CHR ''.'' \<in> set g" and "g \<noteq> defaultRegistryAlias"
  shows "good_registry U g"
  using assms checkRegistry_plain [OF assms(1-3)] by (simp add: good_registry_def)

lemma parse_dotted_path:
  assumes "url_Parse_documented U"
  shows "name_ParseReference U makeOptions ''gcr.io/foo.bar/baz:v1'' =
           Inr (NameTag \<lparr>registry = ''gcr.io'', repository = ''foo.bar/baz''\<rparr> ''v1'')"
proof -
  have g: "good_registry U ''gcr.io''"
    by (rule good_registry_plain [OF assms]) (simp_all add: plainHostChars_def defaultRegistryAlias_def)
  have p: "checkRepository ''foo.bar/baz'' = None" and t: "checkTag ''v1'' = None"
    by code_simp+
  have "NewTag U (''gcr.io'' @ CHR ''/'' # ''foo.bar/baz'' @ CHR '':'' # ''v1'') makeOptions =
          Inr (NameTag \<lparr>registry = ''gcr.io'', repository = ''foo.bar/baz''\<rparr> ''v1'')"
    by (rule NewTag_canonical [OF assms g p t]) simp
  then show ?thesis by (simp add: name_ParseReference_def)
qed

lemma parse_dotted_again:
  assumes "url_Parse_documented U"
  shows "name_ParseReference U (WithDefaultRegistry reg makeOptions) ''foo.bar/baz'' =
           Inr (NameTag \<lparr>registry = ''foo.bar'', repository = ''baz''\<rparr> ''latest'')"
proof -
  have g: "good_registry U ''foo.bar''"
    by (rule good_registry_plain [OF assms]) (simp_all add: plainHostChars_def defaultRegistryAlias_def)
  have p: "checkRepository ''baz'' = None"
    by code_simp
  have "NewTag U (''foo.bar'' @ CHR ''/'' # ''baz'') (WithDefaultRegistry reg makeOptions) =
          Inr (NameTag \<lparr>registry = ''foo.bar'', repository = ''baz''\<rparr>
                 (defaultTag (WithDefaultRegistry reg makeOptions)))"
    by (rule NewTag_canonical_base [OF assms g p]) simp
  then show ?thesis by (simp add: name_ParseReference_def)
qed

text \<open>
  C3. \<open>RelocateReference\<close> parses the repository path of its input as a reference of
  its own. A path whose first segment contains a dot is then cut again: whatever
  \<open>url.Parse\<close> is, as long as it reads plain host names as documented, the reference
  \<open>gcr.io/foo.bar/baz:v1\<close> parses with registry \<open>gcr.io\<close> and repository path
  \<open>foo.bar/baz\<close>, and relocating it to any registry \<open>reg\<close> gives the reference
  \<open>foo.bar/baz:v1\<close> with registry \<open>foo.bar\<close> and repository path \<open>baz\<close>: the given
  registry is dropped and the repository path loses its first segment. The tag is
  kept.
\<close>

theorem RelocateReference_dotted_path:
  assumes "url_Parse_documented U"
  shows "name_ParseReference U makeOptions ''gcr.io/foo.bar/baz:v1'' =
           Inr (NameTag \<lparr>registry = ''gcr.io'', repository = ''foo.bar/baz''\<rparr> ''v1'') \<and>
         RelocateReference U ''gcr.io/foo.bar/baz:v1'' reg =
           Inr (NameTag \<lparr>registry = ''foo.bar'', repository = ''baz''\<rparr> ''v1'')"
proof -
  have s: "RepositoryStr \<lparr>registry = ''gcr.io'', repository = ''foo.bar/baz''\<rparr> = ''foo.bar/baz''"
    and n: "Name (NameTag \<lparr>registry = ''gcr.io'', repository = ''foo.bar/baz''\<rparr> ''v1'') =
              ''gcr.io/foo.bar/baz:v1''"
    by code_simp+
  have "CHR ''@'' \<notin> set ''gcr.io/foo.bar/baz:v1''" by simp
  from NewDigest_no_at [OF this] obtain err where
    d: "NewDigest U ''gcr.io/foo.bar/baz:v1'' makeOptions = Inl err" ..
  show ?thesis
    unfolding RelocateReference_def
    by (simp add: parse_dotted_path [OF assms] parse_dotted_again [OF assms] s n d
        Repository_Tag_def del: Name.simps)
qed

theorem RelocateReference_dotted_path_witness:
  "url_Parse_documented example_url \<and>
   name_ParseReference example_url makeOptions ''gcr.io/foo.bar/baz:v1'' =
     Inr (NameTag \<lparr>registry = ''gcr.io'', repository = ''foo.bar/baz''\<rparr> ''v1'') \<and>
   RelocateReference example_url ''gcr.io/foo.bar/baz:v1'' ''myreg.io'' =
     Inr (NameTag \<lparr>registry = ''foo.bar'', repository = ''baz''\<rparr> ''v1'')"
  using RelocateReference_dotted_path [OF example_url_documented, of "''myreg.io''"]
    example_url_documented
  by simp

text \<open>
  Apart from such paths, \<open>RelocateReference\<close> puts the registry given, as
  \<open>NewRegistry\<close> stores it, in front of the repository path of its input and keeps
  the identifier and its kind.
\<close>

lemma RelocateReference_plain_path:
  assumes "url_Parse_documented U" and "name_ParseReference U makeOptions reference = Inr ref"
    and "checkRepository (RepositoryStr (Context ref)) = None"
    and "\<not> names_registry (RepositoryStr (Context ref))"
  shows "\<exists>out. RelocateReference U reference reg = Inr out \<and>
           registry (Context out) = normalised reg \<and>
           repository (Context out) = RepositoryStr (Context ref) \<and>
           Identifier out = Identifier ref \<and>
           digest_form out = digest_form ref"
  using assms by (rule relocate_parsed)

text \<open>
  The alias \<open>docker.io\<close> is stored as \<open>index.docker.io\<close>; a repository path of one
  segment on Docker Hub has \<open>library/\<close> put in front, also the path \<open>..\<close>.
\<close>

lemma RelocateReference_examples:
  "RelocateReference example_url ''gcr.io/foo/baz:v1'' ''docker.io'' =
     Inr (NameTag \<lparr>registry = ''index.docker.io'', repository = ''foo/baz''\<rparr> ''v1'')"
  "RelocateReference example_url ''..'' ''myreg.io'' =
     Inr (NameTag \<lparr>registry = ''myreg.io'', repository = ''library/..''\<rparr> ''latest'')"
  "RelocateReference example_url
     ''ubuntu@sha256:0123456789abcdef0123456789abcdef0123456789abcdef0123456789abcdef'' ''myreg.io:5000'' =
     Inr (NameDigest \<lparr>registry = ''myreg.io:5000'', repository = ''library/ubuntu''\<rparr>
            ''sha256:0123456789abcdef0123456789abcdef0123456789abcdef0123456789abcdef'')"
  by code_simp+








lemma AddArtifact_parse_error:
  assumes "ParseReference D (WithDefaultTag ''latest'' (WithDefaultRegistry [] makeOptions)) reference
             = Inl err"
  shows "AddArtifact D s oci reference x =
           (case newLayout D x of
              (Inl e, x1) \<Rightarrow> ((zero_Descriptor, Some e), s, x1)
            | (Inr stage, x1) \<Rightarrow>
                ((zero_Descriptor, Some (Wrap err ''adding artifact'')), s, x1))"
  using assms by (simp add: AddArtifact_def Let_def split: prod.splits sum.splits)

lemma AddArtifact_parsed:
  assumes "newLayout D x = (Inr stage, x1)"
    and "ParseReference D (WithDefaultTag ''latest'' (WithDefaultRegistry [] makeOptions)) reference
           = Inr ref"
  shows "AddArtifact D s oci reference x =
           (case layout_add D stage (case cache s of None \<Rightarrow> oci | Some c \<Rightarrow> cache_Oci D oci c)
                   ref x1 of
              (Some err, x2) \<Rightarrow> ((zero_Descriptor, Some err), s, x2)
            | (None, x2) \<Rightarrow> layout_commit D stage s x2)"
  using assms by (simp add: AddArtifact_def Let_def)

text \<open>
  C5. \<open>AddArtifact\<close> parses the reference with the empty default registry and the
  default tag \<open>latest\<close>. When the parser rejects the string, \<open>AddArtifact\<close> returns the
  zero descriptor and leaves the store unchanged: the error is the one of \<open>newLayout\<close>
  when no staging layout could be made, which is tried first, and otherwise the
  parser's error wrapped with the message \<open>adding artifact\<close>; the world is as
  \<open>newLayout\<close> left it, so neither \<open>add\<close> nor \<open>commit\<close> has run. When there is a
  staging layout and the parser accepts the string, \<open>AddArtifact\<close> hands the parsed
  reference to \<open>add\<close> and goes on to \<open>commit\<close>; with package name as the parser,
  whatever \<open>url.Parse\<close> is, the registry of that reference is empty unless the
  string itself starts with a registry, and a tag is \<open>latest\<close> unless the string ends
  with a colon and that tag.
\<close>

theorem AddArtifact_parses_reference:
  "(\<forall>err.
      ParseReference D (WithDefaultTag ''latest'' (WithDefaultRegistry [] makeOptions)) reference
        = Inl err \<longrightarrow>
      AddArtifact D s oci reference x =
        (case newLayout D x of
           (Inl e, x1) \<Rightarrow> ((zero_Descriptor, Some e), s, x1)
         | (Inr stage, x1) \<Rightarrow>
             ((zero_Descriptor, Some (Wrap err ''adding artifact'')), s, x1))) \<and>
   (\<forall>U stage x1 ref.
      ParseReference D = name_ParseReference U \<and> newLayout D x = (Inr stage, x1) \<and>
      name_ParseReference U (WithDefaultTag ''latest'' (WithDefaultRegistry [] makeOptions)) reference
        = Inr ref \<longrightarrow>
      AddArtifact D s oci reference x =
        (case layout_add D stage (case cache s of None \<Rightarrow> oci | Some c \<Rightarrow> cache_Oci D oci c)
                ref x1 of
           (Some err, x2) \<Rightarrow> ((zero_Descriptor, Some err), s, x2)
         | (None, x2) \<Rightarrow> layout_commit D stage s x2) \<and>
      (\<not> names_registry reference \<longrightarrow> registry (Context ref) = []) \<and>
      (\<forall>r t. ref = NameTag r t \<longrightarrow> t = ''latest'' \<or> (\<exists>base. reference = base @ '':'' @ t)))"
proof (intro conjI allI impI)
  fix err
  assume "ParseReference D (WithDefaultTag ''latest'' (WithDefaultRegistry [] makeOptions)) reference
            = Inl err"
  then show "AddArtifact D s oci reference x =
        (case newLayout D x of
           (Inl e, x1) \<Rightarrow> ((zero_Descriptor, Some e), s, x1)
         | (Inr stage, x1) \<Rightarrow>
             ((zero_Descriptor, Some (Wrap err ''adding artifact'')), s, x1))"
    by (rule AddArtifact_parse_error)
next
  fix U stage x1 ref
  assume a: "ParseReference D = name_ParseReference U \<and> newLayout D x = (Inr stage, x1) \<and>
      name_ParseReference U (WithDefaultTag ''latest'' (WithDefaultRegistry [] makeOptions)) reference
        = Inr ref"
  then have "ParseReference D (WithDefaultTag ''latest'' (WithDefaultRegistry [] makeOptions)) reference
        = Inr ref" by simp
  with a show "AddArtifact D s oci reference x =
        (case layout_add D stage (case cache s of None \<Rightarrow> oci | Some c \<Rightarrow> cache_Oci D oci c)
                ref x1 of
           (Some err, x2) \<Rightarrow> ((zero_Descriptor, Some err), s, x2)
         | (None, x2) \<Rightarrow> layout_commit D stage s x2)"
    by (simp only: AddArtifact_parsed)
next
  fix U stage x1 ref
  assume a: "ParseReference D = name_ParseReference U \<and> newLayout D x = (Inr stage, x1) \<and>
      name_ParseReference U (WithDefaultTag ''latest'' (WithDefaultRegistry [] makeOptions)) reference
        = Inr ref"
    and n: "\<not> names_registry reference"
  from a have p: "name_ParseReference U (WithDefaultTag ''latest'' (WithDefaultRegistry [] makeOptions))
      reference = Inr ref" by simp
  show "registry (Context ref) = []"
    by (rule parse_no_registry [OF p _ _ n]) simp_all
next
  fix U stage x1 ref r t
  assume a: "ParseReference D = name_ParseReference U \<and> newLayout D x = (Inr stage, x1) \<and>
      name_ParseReference U (WithDefaultTag ''latest'' (WithDefaultRegistry [] makeOptions)) reference
        = Inr ref"
    and "ref = NameTag r t"
  then have "name_ParseReference U (WithDefaultTag ''latest'' (WithDefaultRegistry [] makeOptions))
      reference = Inr (NameTag r t)"
    by simp
  from parse_tag_default [OF this] show "t = ''latest'' \<or> (\<exists>base. reference = base @ '':'' @ t)"
    by simp
qed

lemma example_parse_bad:
  "name_ParseReference example_url (WithDefaultTag ''latest'' (WithDefaultRegistry [] makeOptions))
     ''My Repo'' = Inl (ErrBadName ''could not parse reference: My Repo'')"
  by code_simp

lemma example_parse_plain:
  "name_ParseReference example_url (WithDefaultTag ''latest'' (WithDefaultRegistry [] makeOptions))
     ''myrepo'' = Inr (NameTag \<lparr>registry = [], repository = ''myrepo''\<rparr> ''latest'')"
  by code_simp

lemma example_layouts:
  "newLayout example_staging [] = (Inr (), [])"
  "newLayout example_staging_no_tmp [] = (Inl (Failure ''mkdir temp''), [])"
  "ParseReference example_staging = name_ParseReference example_url"
  "ParseReference example_staging_no_tmp = name_ParseReference example_url"
  "cache example_store = None"
  by (simp_all add: example_staging_def example_staging_no_tmp_def example_store_def)

lemma example_add_myrepo:
  "layout_add example_staging () ''hello''
     (NameTag \<lparr>registry = [], repository = ''myrepo''\<rparr> ''latest'') [] =
     (None, [(''myrepo:latest'', ''hello'')])"
  "layout_commit example_staging () example_store [(''myrepo:latest'', ''hello'')] =
     ((example_descriptor [(''myrepo:latest'', ''hello'')], None),
      example_store\<lparr>store := [(''myrepo:latest'', ''hello'')]\<rparr>, [])"
  by code_simp+

text \<open>
  A string with a capital letter and a space is rejected, with and without a staging
  layout; \<open>myrepo\<close> is accepted and committed under the name \<open>myrepo:latest\<close>.
\<close>

theorem AddArtifact_parses_reference_witness:
  "AddArtifact example_staging example_store ''hello'' ''My Repo'' [] =
     ((zero_Descriptor, Some (Wrap (ErrBadName ''could not parse reference: My Repo'') ''adding artifact'')),
      example_store, []) \<and>
   AddArtifact example_staging_no_tmp example_store ''hello'' ''My Repo'' [] =
     ((zero_Descriptor, Some (Failure ''mkdir temp'')), example_store, []) \<and>
   name_ParseReference example_url (WithDefaultTag ''latest'' (WithDefaultRegistry [] makeOptions))
     ''myrepo'' = Inr (NameTag \<lparr>registry = [], repository = ''myrepo''\<rparr> ''latest'') \<and>
   AddArtifact example_staging example_store ''hello'' ''myrepo'' [] =
     ((example_descriptor [(''myrepo:latest'', ''hello'')], None),
      example_store\<lparr>store := [(''myrepo:latest'', ''hello'')]\<rparr>, [])"
proof -
  have n: "\<not> names_registry ''myrepo''" by code_simp
  have 1: "AddArtifact example_staging example_store ''hello'' ''My Repo'' [] =
     ((zero_Descriptor, Some (Wrap (ErrBadName ''could not parse reference: My Repo'') ''adding artifact'')),
      example_store, [])"
    using AddArtifact_parses_reference [where D = example_staging and x = "[]"
        and reference = "''My Repo''" and s = example_store and oci = "''hello''", THEN conjunct1]
      example_layouts example_parse_bad
    by simp
  have 2: "AddArtifact example_staging_no_tmp example_store ''hello'' ''My Repo'' [] =
     ((zero_Descriptor, Some (Failure ''mkdir temp'')), example_store, [])"
    using AddArtifact_parses_reference [where D = example_staging_no_tmp and x = "[]"
        and reference = "''My Repo''" and s = example_store and oci = "''hello''", THEN conjunct1]
      example_layouts example_parse_bad
    by simp
  have 3: "AddArtifact example_staging example_store ''hello'' ''myrepo'' [] =
     ((example_descriptor [(''myrepo:latest'', ''hello'')], None),
      example_store\<lparr>store := [(''myrepo:latest'', ''hello'')]\<rparr>, [])"
    using AddArtifact_parses_reference [where D = example_staging and x = "[]"
        and reference = "''myrepo''" and s = example_store and oci = "''hello''", THEN conjunct2,
        rule_format, where U = example_url and stage = "()" and ?x1.0 = "[]"
        and ref = "NameTag \<lparr>registry = [], repository = ''myrepo''\<rparr> ''latest''"]
      example_layouts example_parse_plain example_add_myrepo n
    by simp
  from 1 2 example_parse_plain 3 show ?thesis by blast
qed

text \<open>
  The error returned for a rejected string is the wrapped error of the parser, not
  \<open>ErrInvalidReference\<close>; and when no staging layout can be made, it is the error of
  \<open>newLayout\<close>.
\<close>

theorem AddArtifact_invalid_reference_counterexample:
  "name_ParseReference example_url (WithDefaultTag ''latest'' (WithDefaultRegistry [] makeOptions))
     ''My Repo'' = Inl (ErrBadName ''could not parse reference: My Repo'') \<and>
   snd (fst (AddArtifact example_staging example_store ''hello'' ''My Repo'' [])) =
     Some (Wrap (ErrBadName ''could not parse reference: My Repo'') ''adding artifact'') \<and>
   snd (fst (AddArtifact example_staging example_store ''hello'' ''My Repo'' [])) \<noteq>
     Some ErrInvalidReference \<and>
   snd (fst (AddArtifact example_staging_no_tmp example_store ''hello'' ''My Repo'' [])) =
     Some (Failure ''mkdir temp'') \<and>
   snd (fst (AddArtifact example_staging_no_tmp example_store ''hello'' ''My Repo'' [])) \<noteq>
     Some ErrInvalidReference"
  by code_simp

section \<open>Properties of the blob cache of the specification\<close>

lemma failing_coherent: "failing c \<Longrightarrow> coherent a c"
  by (simp add: coherent_def cache_get_def)

lemma misses_coherent: "misses a c \<Longrightarrow> coherent a c"
  by (auto simp: coherent_def misses_def)

lemma coherent_put:
  assumes "coherent a c" and "Produce a key = Inr bytes"
  shows "coherent a (snd (cache_put c key bytes))"
  using assms by (auto simp: coherent_def cache_put_def cache_get_def split: if_splits option.splits)

lemma Blob_coherent:
  assumes "coherent (underlying oci) cs" and "key \<in> set (Layers (underlying oci))"
  shows "fst (Blob oci key cs) = Produce (underlying oci) key \<and>
         coherent (underlying oci) (snd (Blob oci key cs))"
  using assms
proof (induction oci arbitrary: cs)
  case (Plain a)
  then show ?case by simp
next
  case (Cached oci)
  let ?a = "underlying oci"
  from Cached.prems have c: "coherent ?a cs" and k: "key \<in> set (Layers ?a)" by simp_all
  obtain bytes found where g: "cache_get cs key = (bytes, found)" by (cases "cache_get cs key")
  show ?case
  proof (cases found)
    case True
    with g c k have "Produce ?a key = Inr bytes" by (auto simp: coherent_def)
    with g True c show ?thesis by simp
  next
    case False
    obtain r cs' where b: "Blob oci key cs = (r, cs')" by (cases "Blob oci key cs")
    with Cached.IH [OF c k] have r: "r = Produce ?a key" and c': "coherent ?a cs'" by simp_all
    show ?thesis
    proof (cases "Produce ?a key")
      case (Inl err)
      with g False b r c' show ?thesis by simp
    next
      case (Inr bs)
      from coherent_put [OF c' Inr] g False b r Inr show ?thesis by simp
    qed
  qed
qed

lemma stage_blobs_coherent:
  assumes "coherent (underlying oci) cs" and "set keys \<subseteq> set (Layers (underlying oci))"
  shows "fst (stage_blobs h oci keys cs acc) =
           fst (stage_blobs h (Plain (underlying oci)) keys cs0 acc) \<and>
         coherent (underlying oci) (snd (stage_blobs h oci keys cs acc))"
  using assms
proof (induction keys arbitrary: cs cs0 acc)
  case Nil
  then show ?case by simp
next
  case (Cons key keys)
  let ?a = "underlying oci"
  from Cons.prems have k: "key \<in> set (Layers ?a)" and ks: "set keys \<subseteq> set (Layers ?a)"
    by simp_all
  obtain r cs' where w: "Blob oci key cs = (r, cs')" by (cases "Blob oci key cs")
  with Blob_coherent [OF Cons.prems(1) k] have r: "r = Produce ?a key" and c': "coherent ?a cs'"
    by simp_all
  show ?case
  proof (cases "Produce ?a key")
    case (Inl err)
    with w r c' show ?thesis by simp
  next
    case (Inr bytes)
    show ?thesis
    proof (cases "h bytes = key")
      case True
      with Inr w r Cons.IH [OF c' ks, where ?cs0.0 = cs0 and acc = "acc @ [(key, bytes)]"]
      show ?thesis by simp
    next
      case False
      with Inr w r c' show ?thesis by simp
    qed
  qed
qed

lemma stage_blobs_cached:
  assumes "coherent (underlying oci) cs"
  shows "fst (stage_blobs h (Cached oci) (Layers (underlying oci)) cs []) =
           fst (stage_blobs h oci (Layers (underlying oci)) cs []) \<and>
         coherent (underlying oci) (snd (stage_blobs h (Cached oci) (Layers (underlying oci)) cs []))"
proof -
  have c: "coherent (underlying (Cached oci)) cs" using assms by simp
  from stage_blobs_coherent [OF c, where keys = "Layers (underlying oci)" and h = h
      and ?cs0.0 = cs and acc = "[]"]
    stage_blobs_coherent [OF assms, where keys = "Layers (underlying oci)" and h = h
      and ?cs0.0 = cs and acc = "[]"]
  show ?thesis by simp
qed

text \<open>
  C9. With the cache and the staging layout of the specification: for a cache that
  agrees with the artifact, that is, whose hits under the keys of the artifact's
  blobs return what the artifact's producer yields, and so for a cache whose backing
  store fails and for a cache that misses on these keys, \<open>AddArtifact\<close> with the
  cache returns the same descriptor and the same error as \<open>AddArtifact\<close> with a nil
  cache, and leaves the same store contents. The cache agrees with the artifact
  afterwards. So a failure of the cache never fails the add, and such a cache never
  changes its result.
\<close>

theorem cache_never_changes_result:
  assumes "coherent (underlying oci) (the_cache x) \<or> failing (the_cache x) \<or>
           misses (underlying oci) (the_cache x)"
  shows "fst (AddArtifact (spec_staging U h) (s\<lparr>cache := Some ()\<rparr>) oci reference x) =
           fst (AddArtifact (spec_staging U h) (s\<lparr>cache := None\<rparr>) oci reference x) \<and>
         store (fst (snd (AddArtifact (spec_staging U h) (s\<lparr>cache := Some ()\<rparr>) oci reference x))) =
           store (fst (snd (AddArtifact (spec_staging U h) (s\<lparr>cache := None\<rparr>) oci reference x))) \<and>
         coherent (underlying oci)
           (the_cache (snd (snd (AddArtifact (spec_staging U h) (s\<lparr>cache := Some ()\<rparr>) oci reference x))))"
proof -
  from assms have co: "coherent (underlying oci) (the_cache x)"
    using failing_coherent misses_coherent by blast
  show ?thesis
  proof (cases "name_ParseReference U (WithDefaultTag ''latest'' (WithDefaultRegistry [] makeOptions)) reference")
    case (Inl err)
    with co show ?thesis
      by (simp add: AddArtifact_def spec_staging_def)
  next
    case (Inr ref)
    let ?w = "stage_blobs h (Cached oci) (Layers (underlying oci)) (the_cache x) []"
    let ?n = "stage_blobs h oci (Layers (underlying oci)) (the_cache x) []"
    from stage_blobs_cached [OF co, where h = h]
    have f: "fst ?w = fst ?n" and c: "coherent (underlying oci) (snd ?w)" by simp_all
    obtain rw cw where w: "?w = (rw, cw)" by (cases ?w)
    obtain rn cn where n: "?n = (rn, cn)" by (cases ?n)
    from f w n have rr: "rw = rn" by simp
    from c w have cc: "coherent (underlying oci) cw" by simp
    show ?thesis
    proof (cases rn)
      case (Inl err)
      with Inr w n rr cc show ?thesis
        by (simp add: AddArtifact_def spec_staging_def cache_Oci_spec_def)
    next
      case blobs: (Inr blobs)
      with Inr w n rr cc show ?thesis
        by (simp add: AddArtifact_def spec_staging_def cache_Oci_spec_def)
    qed
  qed
qed

lemma example_caches:
  "coherent (underlying (Plain example_artifact)) (the_cache example_warm)"
  "failing (the_cache example_broken)"
  "misses (underlying (Plain example_artifact)) (the_cache example_cold)"
  by (simp_all add: coherent_def misses_def cache_get_def example_warm_def example_broken_def
      example_cold_def example_artifact_def example_produce_def)

lemma example_uncached:
  "fst (AddArtifact (spec_staging example_url example_digest) (example_spec_store\<lparr>cache := None\<rparr>)
          (Plain example_artifact) ''app:1'' example_warm) = (Manifest example_artifact, None)"
  "store (fst (snd (AddArtifact (spec_staging example_url example_digest)
          (example_spec_store\<lparr>cache := None\<rparr>) (Plain example_artifact) ''app:1'' example_warm))) =
     [(''app:1'', Manifest example_artifact, [(''d-hello'', ''hello'')])]"
  "fst (AddArtifact (spec_staging example_url example_digest) (example_spec_store\<lparr>cache := None\<rparr>)
          (Plain example_artifact) ''app:1'' example_broken) = (Manifest example_artifact, None)"
  "store (fst (snd (AddArtifact (spec_staging example_url example_digest)
          (example_spec_store\<lparr>cache := None\<rparr>) (Plain example_artifact) ''app:1'' example_broken))) =
     [(''app:1'', Manifest example_artifact, [(''d-hello'', ''hello'')])]"
  "fst (AddArtifact (spec_staging example_url example_digest) (example_spec_store\<lparr>cache := None\<rparr>)
          (Plain example_artifact) ''app:1'' example_cold) = (Manifest example_artifact, None)"
  "store (fst (snd (AddArtifact (spec_staging example_url example_digest)
          (example_spec_store\<lparr>cache := None\<rparr>) (Plain example_artifact) ''app:1'' example_cold))) =
     [(''app:1'', Manifest example_artifact, [(''d-hello'', ''hello'')])]"
  by code_simp+

text \<open>
  A warm cache, a failing cache with a stale entry and a cold cache: the entry
  committed with the cache is the one committed without it.
\<close>

theorem cache_never_changes_result_witness:
  "fst (AddArtifact (spec_staging example_url example_digest) (example_spec_store\<lparr>cache := Some ()\<rparr>)
          (Plain example_artifact) ''app:1'' example_warm) = (Manifest example_artifact, None) \<and>
   store (fst (snd (AddArtifact (spec_staging example_url example_digest)
          (example_spec_store\<lparr>cache := Some ()\<rparr>) (Plain example_artifact) ''app:1'' example_warm))) =
     [(''app:1'', Manifest example_artifact, [(''d-hello'', ''hello'')])] \<and>
   fst (AddArtifact (spec_staging example_url example_digest) (example_spec_store\<lparr>cache := Some ()\<rparr>)
          (Plain example_artifact) ''app:1'' example_broken) = (Manifest example_artifact, None) \<and>
   store (fst (snd (AddArtifact (spec_staging example_url example_digest)
          (example_spec_store\<lparr>cache := Some ()\<rparr>) (Plain example_artifact) ''app:1'' example_broken))) =
     [(''app:1'', Manifest example_artifact, [(''d-hello'', ''hello'')])] \<and>
   fst (AddArtifact (spec_staging example_url example_digest) (example_spec_store\<lparr>cache := Some ()\<rparr>)
          (Plain example_artifact) ''app:1'' example_cold) = (Manifest example_artifact, None) \<and>
   store (fst (snd (AddArtifact (spec_staging example_url example_digest)
          (example_spec_store\<lparr>cache := Some ()\<rparr>) (Plain example_artifact) ''app:1'' example_cold))) =
     [(''app:1'', Manifest example_artifact, [(''d-hello'', ''hello'')])]"
  using cache_never_changes_result [where oci = "Plain example_artifact" and x = example_warm
      and U = example_url and h = example_digest and s = example_spec_store and reference = "''app:1''"]
    cache_never_changes_result [where oci = "Plain example_artifact" and x = example_broken
      and U = example_url and h = example_digest and s = example_spec_store and reference = "''app:1''"]
    cache_never_changes_result [where oci = "Plain example_artifact" and x = example_cold
      and U = example_url and h = example_digest and s = example_spec_store and reference = "''app:1''"]
    example_caches example_uncached
  by simp

text \<open>
  A cache that does not agree with the artifact changes the result. With a warm
  cache an artifact whose source has gone offline is committed, and without the
  cache the add fails; with a stale entry the add fails on the digest, and without
  the cache it succeeds.
\<close>

theorem cache_changes_result_counterexample:
  "AddArtifact (spec_staging example_url example_digest) (example_spec_store\<lparr>cache := Some ()\<rparr>)
     (Plain example_offline) ''app:1'' example_warm =
     ((Manifest example_offline, None),
      example_spec_store\<lparr>cache := Some (),
        store := [(''app:1'', Manifest example_offline, [(''d-hello'', ''hello'')])]\<rparr>,
      example_warm) \<and>
   AddArtifact (spec_staging example_url example_digest) (example_spec_store\<lparr>cache := None\<rparr>)
     (Plain example_offline) ''app:1'' example_warm =
     ((zero_Descriptor, Some (Failure ''source offline'')),
      example_spec_store\<lparr>cache := None\<rparr>, example_warm) \<and>
   Manifest example_offline \<noteq> zero_Descriptor \<and>
   AddArtifact (spec_staging example_url example_digest) (example_spec_store\<lparr>cache := Some ()\<rparr>)
     (Plain example_artifact) ''app:1'' example_stale =
     ((zero_Descriptor, Some (Failure ''digest mismatch'')),
      example_spec_store\<lparr>cache := Some ()\<rparr>, example_stale) \<and>
   AddArtifact (spec_staging example_url example_digest) (example_spec_store\<lparr>cache := None\<rparr>)
     (Plain example_artifact) ''app:1'' example_stale =
     ((Manifest example_artifact, None),
      example_spec_store\<lparr>cache := None,
        store := [(''app:1'', Manifest example_artifact, [(''d-hello'', ''hello'')])]\<rparr>,
      example_stale)"
  by code_simp

end
